theory Spec2Isabelle
  imports Main "HOL-Library.Sublist" "HOL-Library.AList"
begin

chapter \<open>The model of \<open>gittidy/git.py\<close>\<close>

section \<open>Python strings\<close>

text \<open>
  A Python \<open>str\<close> is modelled as a \<open>string\<close> whose characters are the code points below 256.
  The helpers below are the \<open>str\<close> methods that \<open>gittidy/git.py\<close> calls on the text it reads
  from git.
\<close>

abbreviation TAB :: char where "TAB \<equiv> CHR 0x09"
abbreviation NL :: char where "NL \<equiv> CHR 0x0A"
abbreviation CR :: char where "CR \<equiv> CHR 0x0D"

text \<open>\<open>str.isspace\<close> for one character: the code points Python counts as whitespace.\<close>

definition whitespace_chars :: "char list" where
  "whitespace_chars =
     [CHR 0x09, CHR 0x0A, CHR 0x0B, CHR 0x0C, CHR 0x0D, CHR 0x1C, CHR 0x1D, CHR 0x1E, CHR 0x1F,
      CHR 0x20, CHR 0x85, CHR 0xA0]"

definition py_isspace :: "char \<Rightarrow> bool" where
  "py_isspace c = (c \<in> set whitespace_chars)"

text \<open>\<open>s.strip()\<close>: leading and trailing whitespace removed.\<close>

definition strip :: "string \<Rightarrow> string" where
  "strip s = rev (dropWhile py_isspace (rev (dropWhile py_isspace s)))"

text \<open>\<open>s.startswith(p)\<close>, \<open>s.removeprefix(p)\<close> and \<open>s.removesuffix(p)\<close>.\<close>

definition startswith :: "string \<Rightarrow> string \<Rightarrow> bool" where
  "startswith s p = (take (length p) s = p)"

definition removeprefix :: "string \<Rightarrow> string \<Rightarrow> string" where
  "removeprefix s p = (if startswith s p then drop (length p) s else s)"

definition removesuffix :: "string \<Rightarrow> string \<Rightarrow> string" where
  "removesuffix s p =
     (if p \<noteq> [] \<and> length p \<le> length s \<and> drop (length s - length p) s = p
      then take (length s - length p) s else s)"

text \<open>
  \<open>s.split(sep)\<close> for a one-character separator: the fields between the separators, at least
  one field, empty fields kept.
\<close>

fun split_on :: "char \<Rightarrow> string \<Rightarrow> string list" where
  "split_on sep [] = [[]]"
| "split_on sep (c # cs) =
     (if c = sep then [] # split_on sep cs
      else (case split_on sep cs of
              [] \<Rightarrow> [[c]]
            | f # fs \<Rightarrow> (c # f) # fs))"

text \<open>
  \<open>s.split()\<close> with no separator: the maximal runs of non-whitespace characters; no empty
  field.
\<close>

fun py_split_acc :: "string \<Rightarrow> string \<Rightarrow> string list" where
  "py_split_acc acc [] = (if acc = [] then [] else [acc])"
| "py_split_acc acc (c # cs) =
     (if py_isspace c then (if acc = [] then py_split_acc [] cs else acc # py_split_acc [] cs)
      else py_split_acc (acc @ [c]) cs)"

definition py_split :: "string \<Rightarrow> string list" where
  "py_split s = py_split_acc [] s"

text \<open>
  \<open>s.splitlines()\<close>: the lines of \<open>s\<close> without their line breaks. A line break is one of
  the characters below, or a carriage return followed by a line feed; a final line break opens
  no further line.
\<close>

definition linebreak_chars :: "char list" where
  "linebreak_chars = [CHR 0x0A, CHR 0x0B, CHR 0x0C, CHR 0x0D, CHR 0x1C, CHR 0x1D, CHR 0x1E, CHR 0x85]"

fun splitlines_acc :: "string \<Rightarrow> string \<Rightarrow> string list" where
  "splitlines_acc acc [] = (if acc = [] then [] else [acc])"
| "splitlines_acc acc [c] =
     (if c \<in> set linebreak_chars then [acc] else [acc @ [c]])"
| "splitlines_acc acc (c # d # cs) =
     (if c = CR \<and> d = NL then acc # splitlines_acc [] cs
      else if c \<in> set linebreak_chars then acc # splitlines_acc [] (d # cs)
      else splitlines_acc (acc @ [c]) (d # cs))"

definition splitlines :: "string \<Rightarrow> string list" where
  "splitlines s = splitlines_acc [] s"

section \<open>Errors\<close>

text \<open>
  The exceptions a decoder or an operation can leave with. \<open>git.py\<close> names the classes
  \<open>GitTidyOperationError\<close> and \<open>GitTidyInputError\<close> of \<open>gittidy.exception\<close> in its
  \<open>raise\<close> statements, but that module defines only \<open>GitTidyError\<close> and
  \<open>GitTidyGitNotFoundError\<close>: evaluating \<open>_exception.GitTidyOperationError\<close> or
  \<open>_exception.GitTidyInputError\<close> raises \<open>AttributeError\<close>, and that is what every such
  \<open>raise\<close> statement leaves with. \<open>GitTidyOperationError\<close> is kept as a value, which no
  operation of the model returns, so that a property can name the exception the specification
  expects. The other values are the command runner's failure (\<open>PyShellManError\<close>) and the
  built-in exceptions of the indexing, unpacking and conversion steps.
\<close>

datatype error =
    GitTidyOperationError
  | AttributeError
  | PyShellManError
  | IndexError
  | ValueError
  | KeyError

section \<open>Branch-list decoder\<close>

text \<open>
  \<open>Git.get_all_branch_names\<close>, from the output of \<open>git branch\<close> on: the loop over the lines
  carries the pair \<open>(branch_current, branches_other)\<close>. With more than one current branch
  the source reaches \<open>raise _exception.GitTidyOperationError(...)\<close>, which leaves with
  \<open>AttributeError\<close>; with none, \<open>branch_current[0]\<close> raises \<open>IndexError\<close>.
\<close>

fun branch_loop :: "string list \<times> string list \<Rightarrow> string list \<Rightarrow> string list \<times> string list" where
  "branch_loop (branch_current, branches_other) [] = (branch_current, branches_other)"
| "branch_loop (branch_current, branches_other) (line # rest) =
     (let branch = strip line in
      if branch = [] then branch_loop (branch_current, branches_other) rest
      else if startswith branch ''*''
        then branch_loop (branch_current @ [strip (removeprefix branch ''*'')], branches_other) rest
      else branch_loop (branch_current, branches_other @ [branch]) rest)"

definition get_all_branch_names :: "string \<Rightarrow> error + (string \<times> string list)" where
  "get_all_branch_names out =
     (case branch_loop ([], []) (split_on NL out) of
        (branch_current, branches_other) \<Rightarrow>
          if length branch_current > 1 then Inl AttributeError
          else (case branch_current of
                  [] \<Rightarrow> Inl IndexError
                | b # _ \<Rightarrow> Inr (b, branches_other)))"

text \<open>The lines of a listing that carry the current-branch marker, and those that name another
  branch, as the loop tells them apart: both are read after trimming.\<close>

definition marked :: "string \<Rightarrow> bool" where
  "marked line = startswith (strip line) ''*''"

definition unmarked :: "string \<Rightarrow> bool" where
  "unmarked line = (strip line \<noteq> [] \<and> \<not> startswith (strip line) ''*'')"

section \<open>Regular expressions\<close>

text \<open>
  The two patterns of \<open>git.py\<close> are matched by Python's backtracking matcher. A pattern is
  modelled as a matcher in continuation style: it takes the groups captured so far and the text
  not yet consumed, and returns the groups and the rest of the text of the first match in the
  matcher's order of preference, or \<open>None\<close>. A lazy quantifier tries the continuation before
  it takes another character, a greedy one after.
\<close>

type_synonym matcher = "string list \<Rightarrow> string \<Rightarrow> (string list \<times> string) option"

definition accept :: matcher where
  "accept gs s = Some (gs, s)"

text \<open>A literal.\<close>

definition lit :: "string \<Rightarrow> matcher \<Rightarrow> matcher" where
  "lit l k gs s = (if take (length l) s = l then k gs (drop (length l) s) else None)"

text \<open>One character of a class, as in \<open>[/:]\<close>.\<close>

definition one_of :: "(char \<Rightarrow> bool) \<Rightarrow> matcher \<Rightarrow> matcher" where
  "one_of P k gs s = (case s of [] \<Rightarrow> None | c # cs \<Rightarrow> if P c then k gs cs else None)"

text \<open>A capturing group \<open>(X*?)\<close> over the characters of a class: \<open>acc\<close> is the text the group
  has taken so far.\<close>

fun lazy_from :: "(char \<Rightarrow> bool) \<Rightarrow> matcher \<Rightarrow> string \<Rightarrow> matcher" where
  "lazy_from P k acc gs [] = k (gs @ [acc]) []"
| "lazy_from P k acc gs (c # cs) =
     (case k (gs @ [acc]) (c # cs) of
        Some r \<Rightarrow> Some r
      | None \<Rightarrow> if P c then lazy_from P k (acc @ [c]) gs cs else None)"


definition group_lazy_plus :: "(char \<Rightarrow> bool) \<Rightarrow> matcher \<Rightarrow> matcher" where
  "group_lazy_plus P k gs s =
     (case s of [] \<Rightarrow> None | c # cs \<Rightarrow> if P c then lazy_from P k [c] gs cs else None)"

text \<open>A capturing group \<open>(X+)\<close>: as many characters as possible, giving them back one at a
  time, never the first.\<close>

fun greedy_from :: "(char \<Rightarrow> bool) \<Rightarrow> matcher \<Rightarrow> string \<Rightarrow> matcher" where
  "greedy_from P k acc gs [] = k (gs @ [acc]) []"
| "greedy_from P k acc gs (c # cs) =
     (if P c
      then (case greedy_from P k (acc @ [c]) gs cs of
              Some r \<Rightarrow> Some r
            | None \<Rightarrow> k (gs @ [acc]) (c # cs))
      else k (gs @ [acc]) (c # cs))"

definition group_greedy_plus :: "(char \<Rightarrow> bool) \<Rightarrow> matcher \<Rightarrow> matcher" where
  "group_greedy_plus P k gs s =
     (case s of [] \<Rightarrow> None | c # cs \<Rightarrow> if P c then greedy_from P k [c] gs cs else None)"


definition opt_lit :: "string \<Rightarrow> matcher \<Rightarrow> matcher" where
  "opt_lit l k gs s = (case lit l k gs s of Some r \<Rightarrow> Some r | None \<Rightarrow> k gs s)"

definition dollar :: "matcher \<Rightarrow> matcher" where
  "dollar k gs s = (if s = [] \<or> s = [NL] then k gs s else None)"

text \<open>\<open>pattern.search(s)\<close>: the match at the leftmost position that has one; its groups.\<close>

fun search :: "matcher \<Rightarrow> string \<Rightarrow> string list option" where
  "search m [] = map_option fst (m [] [])"
| "search m (c # cs) =
     (case m [] (c # cs) of
        Some (gs, rest) \<Rightarrow> Some gs
      | None \<Rightarrow> search m cs)"




definition word_char :: "char \<Rightarrow> bool" where
  "word_char c =
     (let n = (of_char c :: nat) in
      (48 \<le> n \<and> n \<le> 57) \<or> (65 \<le> n \<and> n \<le> 90) \<or> (97 \<le> n \<and> n \<le> 122) \<or> n = 95 \<or>
      n = 170 \<or> n = 178 \<or> n = 179 \<or> n = 181 \<or> n = 185 \<or> n = 186 \<or>
      (188 \<le> n \<and> n \<le> 190) \<or> (192 \<le> n \<and> n \<le> 214) \<or> (216 \<le> n \<and> n \<le> 246) \<or> 248 \<le> n)"

section \<open>Remote-table decoder\<close>

text \<open>
  A Python \<open>dict\<close> keeps its keys in the order of their insertion, and \<open>get_remote_repo_name\<close>
  iterates over the table, so the table is an association list: \<open>map_of\<close> reads a key,
  \<open>AList.update\<close> writes one (in place, or at the end when the key is new).
\<close>

type_synonym remote_table = "(string \<times> (string \<times> string) list) list"

text \<open>One line of \<open>git remote -v\<close>: the unpacking of \<open>remote.split()\<close> into three names raises
  \<open>ValueError\<close> on any other number of fields. The result is (remote name, purpose, URL).\<close>

definition parse_remote_line :: "string \<Rightarrow> error + (string \<times> string \<times> string)" where
  "parse_remote_line remote =
     (case py_split remote of
        [remote_name, url, purpose_raw] \<Rightarrow>
          Inr (remote_name, removesuffix (removeprefix purpose_raw ''('') '')'', url)
      | _ \<Rightarrow> Inl ValueError)"

definition remotes_step :: "remote_table \<Rightarrow> string \<Rightarrow> error + remote_table" where
  "remotes_step remotes remote =
     (case parse_remote_line remote of
        Inl e \<Rightarrow> Inl e
      | Inr (remote_name, purpose, url) \<Rightarrow>
          (let remote_dict = (case map_of remotes remote_name of None \<Rightarrow> [] | Some d \<Rightarrow> d) in
           if map_of remote_dict purpose \<noteq> None then Inl AttributeError
           else Inr (AList.update remote_name (AList.update purpose url remote_dict) remotes)))"

fun remotes_loop :: "remote_table \<Rightarrow> string list \<Rightarrow> error + remote_table" where
  "remotes_loop remotes [] = Inr remotes"
| "remotes_loop remotes (remote # rest) =
     (case remotes_step remotes remote of
        Inl e \<Rightarrow> Inl e
      | Inr remotes' \<Rightarrow> remotes_loop remotes' rest)"

text \<open>\<open>Git.get_remotes\<close>, from the output of \<open>git remote -v\<close> on. For a purpose that the
  remote already has, the source reaches \<open>raise _exception.GitTidyOperationError(...)\<close>, which
  leaves with \<open>AttributeError\<close>.\<close>

definition get_remotes :: "string \<Rightarrow> error + remote_table" where
  "get_remotes out = remotes_loop [] (splitlines out)"

text \<open>What a table holds for a remote name and a purpose.\<close>

definition table_url :: "remote_table \<Rightarrow> string \<Rightarrow> string \<Rightarrow> string option" where
  "table_url remotes remote_name purpose =
     (case map_of remotes remote_name of None \<Rightarrow> None | Some d \<Rightarrow> map_of d purpose)"

section \<open>Repository-name extraction\<close>

text \<open>The nested \<open>extract_repo_name_from_url\<close>: the pattern
  \<^verbatim>\<open>github\.com[/:]([\w\-]+)/([\w\-.]+?)(?:\.git)?$\<close> searched in the URL.\<close>

definition owner_char :: "char \<Rightarrow> bool" where
  "owner_char c = (word_char c \<or> c = CHR ''-'')"

definition repo_char :: "char \<Rightarrow> bool" where
  "repo_char c = (word_char c \<or> c = CHR ''-'' \<or> c = CHR ''.'')"

definition repo_pattern :: matcher where
  "repo_pattern =
     lit ''github.com'' (one_of (\<lambda>c. c = CHR ''/'' \<or> c = CHR '':'')
       (group_greedy_plus owner_char (lit ''/''
         (group_lazy_plus repo_char (opt_lit ''.git'' (dollar accept))))))"

definition extract_repo_name_from_url :: "string \<Rightarrow> (string \<times> string) option" where
  "extract_repo_name_from_url url =
     (case search repo_pattern url of
        Some [owner, repo] \<Rightarrow> Some (owner, repo)
      | _ \<Rightarrow> None)"

text \<open>The \<open>for\<close> loops of \<open>get_remote_repo_name\<close> return at the first URL that yields a name.\<close>

fun purposes_loop :: "(string \<times> string) list \<Rightarrow> (string \<times> string) option" where
  "purposes_loop [] = None"
| "purposes_loop ((remote_purpose', remote_url) # rest) =
     (case extract_repo_name_from_url remote_url of
        Some repo_name \<Rightarrow> Some repo_name
      | None \<Rightarrow> purposes_loop rest)"

fun other_purposes_loop :: "string \<Rightarrow> (string \<times> string) list \<Rightarrow> (string \<times> string) option" where
  "other_purposes_loop remote_purpose [] = None"
| "other_purposes_loop remote_purpose ((remote_purpose', url) # rest) =
     (if remote_purpose' \<noteq> remote_purpose
      then (case extract_repo_name_from_url url of
              Some repo_name \<Rightarrow> Some repo_name
            | None \<Rightarrow> other_purposes_loop remote_purpose rest)
      else other_purposes_loop remote_purpose rest)"

fun names_loop :: "string \<Rightarrow> remote_table \<Rightarrow> (string \<times> string) option" where
  "names_loop remote_purpose [] = None"
| "names_loop remote_purpose ((remote_name', data) # rest) =
     (case (case map_of data remote_purpose of
              Some url \<Rightarrow> extract_repo_name_from_url url
            | None \<Rightarrow> None) of
        Some repo_name \<Rightarrow> Some repo_name
      | None \<Rightarrow>
          (case other_purposes_loop remote_purpose data of
             Some repo_name \<Rightarrow> Some repo_name
           | None \<Rightarrow> names_loop remote_purpose rest))"

text \<open>The body of \<open>Git.get_remote_repo_name\<close> after the table has been read.\<close>

definition remote_repo_name :: "remote_table \<Rightarrow> string \<Rightarrow> string \<Rightarrow> bool \<Rightarrow> bool \<Rightarrow> (string \<times> string) option" where
  "remote_repo_name remotes remote_name remote_purpose fallback_name fallback_purpose =
     (if remotes = [] then None
      else
        (case (case map_of remotes remote_name of
                 None \<Rightarrow> None
               | Some d \<Rightarrow>
                   (case (case map_of d remote_purpose of
                            Some url \<Rightarrow> extract_repo_name_from_url url
                          | None \<Rightarrow> None) of
                      Some repo_name \<Rightarrow> Some repo_name
                    | None \<Rightarrow> if fallback_purpose then purposes_loop d else None)) of
           Some repo_name \<Rightarrow> Some repo_name
         | None \<Rightarrow> if fallback_name then names_loop remote_purpose remotes else None))"

definition get_remote_repo_name :: "string \<Rightarrow> string \<Rightarrow> string \<Rightarrow> bool \<Rightarrow> bool \<Rightarrow> error + (string \<times> string) option" where
  "get_remote_repo_name out remote_name remote_purpose fallback_name fallback_purpose =
     (case get_remotes out of
        Inl e \<Rightarrow> Inl e
      | Inr remotes \<Rightarrow>
          Inr (remote_repo_name remotes remote_name remote_purpose fallback_name fallback_purpose))"

section \<open>Reference notions for the remote table\<close>

text \<open>A decoded line is a triple (remote name, purpose, URL); its key is the pair of remote name
  and purpose.\<close>

definition entry_key :: "string \<times> string \<times> string \<Rightarrow> string \<times> string" where
  "entry_key e = (fst e, fst (snd e))"

definition entry_kv :: "string \<times> string \<times> string \<Rightarrow> (string \<times> string) \<times> string" where
  "entry_kv e = ((fst e, fst (snd e)), snd (snd e))"

text \<open>The invariant of the decoding loop: the table built from the entries \<open>es\<close> has one key
  per remote name of \<open>es\<close> and holds, under a remote name and a purpose, the URL of that
  entry.\<close>

definition table_inv :: "remote_table \<Rightarrow> (string \<times> string \<times> string) list \<Rightarrow> bool" where
  "table_inv remotes es =
     (distinct (map fst remotes) \<and> set (map fst remotes) = set (map fst es) \<and>
      (\<forall>n p. table_url remotes n p = map_of (map entry_kv es) (n, p)))"

text \<open>The first element of a list on which \<open>f\<close> yields a result: the result.\<close>

fun first_some :: "('a \<Rightarrow> 'b option) \<Rightarrow> 'a list \<Rightarrow> 'b option" where
  "first_some f [] = None"
| "first_some f (x # xs) = (case f x of Some r \<Rightarrow> Some r | None \<Rightarrow> first_some f xs)"

text \<open>The URLs of one remote in the order the fallback over the remote names tries them: the
  one of the requested purpose, then those of the other purposes.\<close>

definition remote_urls :: "string \<Rightarrow> (string \<times> string) list \<Rightarrow> string list" where
  "remote_urls remote_purpose data =
     (case map_of data remote_purpose of Some url \<Rightarrow> [url] | None \<Rightarrow> []) @
     map snd (filter (\<lambda>e. fst e \<noteq> remote_purpose) data)"

text \<open>The URLs in the order in which the statements of \<open>get_remote_repo_name\<close> pass over
  them; the last loop passes over every remote of the table.\<close>

definition visited_urls :: "remote_table \<Rightarrow> string \<Rightarrow> string \<Rightarrow> bool \<Rightarrow> bool \<Rightarrow> string list" where
  "visited_urls remotes remote_name remote_purpose fallback_name fallback_purpose =
     (case map_of remotes remote_name of
        None \<Rightarrow> []
      | Some d \<Rightarrow>
          (case map_of d remote_purpose of Some url \<Rightarrow> [url] | None \<Rightarrow> []) @
          (if fallback_purpose then map snd d else [])) @
     (if fallback_name then concat (map (\<lambda>r. remote_urls remote_purpose (snd r)) remotes) else [])"

text \<open>
  The order of the lookup: the exact entry; with the fallback by purpose, the entries of the
  same remote in the order of the table; with the fallback by name, every other remote of the
  table in turn, its entry for the requested purpose first and its other entries after it.
\<close>

definition lookup_order :: "remote_table \<Rightarrow> string \<Rightarrow> string \<Rightarrow> bool \<Rightarrow> bool \<Rightarrow> string list" where
  "lookup_order remotes remote_name remote_purpose fallback_name fallback_purpose =
     (case map_of remotes remote_name of
        None \<Rightarrow> []
      | Some d \<Rightarrow>
          (case map_of d remote_purpose of Some url \<Rightarrow> [url] | None \<Rightarrow> []) @
          (if fallback_purpose then map snd d else [])) @
     (if fallback_name
      then concat (map (\<lambda>r. remote_urls remote_purpose (snd r))
                   (filter (\<lambda>r. fst r \<noteq> remote_name) remotes))
      else [])"

text \<open>The entries of the requested remote for the purposes other than the requested one.\<close>

definition other_purposes :: "remote_table \<Rightarrow> string \<Rightarrow> string \<Rightarrow> (string \<times> string) list" where
  "other_purposes remotes remote_name remote_purpose =
     (case map_of remotes remote_name of
        None \<Rightarrow> []
      | Some d \<Rightarrow> filter (\<lambda>e. fst e \<noteq> remote_purpose) d)"

text \<open>
  The order as the specification words it: the exact entry; with the fallback by purpose, the
  other purposes of the same remote; with the fallback by name, the requested purpose of every
  other remote, and then any purpose of any other remote.
\<close>

definition claimed_order :: "remote_table \<Rightarrow> string \<Rightarrow> string \<Rightarrow> bool \<Rightarrow> bool \<Rightarrow> string list" where
  "claimed_order remotes remote_name remote_purpose fallback_name fallback_purpose =
     (case table_url remotes remote_name remote_purpose of Some url \<Rightarrow> [url] | None \<Rightarrow> []) @
     (if fallback_purpose
      then (case map_of remotes remote_name of
              None \<Rightarrow> []
            | Some d \<Rightarrow> map snd (filter (\<lambda>e. fst e \<noteq> remote_purpose) d))
      else []) @
     (if fallback_name
      then concat (map (\<lambda>r. case map_of (snd r) remote_purpose of Some url \<Rightarrow> [url] | None \<Rightarrow> [])
                   (filter (\<lambda>r. fst r \<noteq> remote_name) remotes)) @
           concat (map (\<lambda>r. map snd (snd r)) (filter (\<lambda>r. fst r \<noteq> remote_name) remotes))
      else [])"

section \<open>Change-set decoder\<close>

text \<open>
  \<open>int(s)\<close> for a \<open>str\<close>. The conversion reads the text as ASCII: a whitespace character
  beyond ASCII (0x85 and 0xA0 below code point 256) is read as a space, every other character
  stands as it is. Then the ASCII whitespace characters (0x09 to 0x0D and the space) are dropped
  at both ends, a sign may come first, and the digits \<open>0\<close> to \<open>9\<close> follow, where single
  underscores may stand between digits. A text of more than 4300 digits is refused
  (\<open>sys.int_max_str_digits\<close>). Anything else raises \<open>ValueError\<close>, here \<open>None\<close>; the separator
  characters 0x1C to 0x1F, which \<open>str.strip\<close> removes, are among it.
\<close>

definition int_char :: "char \<Rightarrow> char" where
  "int_char c = (if c = CHR 0x85 \<or> c = CHR 0xA0 then CHR 0x20 else c)"

definition ascii_space :: "char \<Rightarrow> bool" where
  "ascii_space c = (c \<in> set [CHR 0x09, CHR 0x0A, CHR 0x0B, CHR 0x0C, CHR 0x0D, CHR 0x20])"

definition int_strip :: "string \<Rightarrow> string" where
  "int_strip s = rev (dropWhile ascii_space (rev (dropWhile ascii_space s)))"

definition int_max_str_digits :: nat where
  "int_max_str_digits = 4300"

definition is_digit :: "char \<Rightarrow> bool" where
  "is_digit c = (48 \<le> (of_char c :: nat) \<and> (of_char c :: nat) \<le> 57)"

definition digit_val :: "char \<Rightarrow> int" where
  "digit_val c = int (of_char c) - 48"

fun digits_value :: "int \<Rightarrow> string \<Rightarrow> int option" where
  "digits_value acc [] = Some acc"
| "digits_value acc [c] = (if is_digit c then Some (acc * 10 + digit_val c) else None)"
| "digits_value acc (c # d # cs) =
     (if is_digit c then digits_value (acc * 10 + digit_val c) (d # cs)
      else if c = CHR ''_'' \<and> is_digit d then digits_value acc (d # cs)
      else None)"

definition int_digits :: "string \<Rightarrow> int option" where
  "int_digits s =
     (case s of [] \<Rightarrow> None | c # cs \<Rightarrow> if is_digit c then digits_value (digit_val c) cs else None)"

definition py_int :: "string \<Rightarrow> int option" where
  "py_int s =
     (let t = int_strip (map int_char s) in
      if length (filter is_digit t) > int_max_str_digits then None
      else (case t of
              [] \<Rightarrow> None
            | c # cs \<Rightarrow>
                if c = CHR ''-'' then map_option uminus (int_digits cs)
                else if c = CHR ''+'' then int_digits cs
                else int_digits (c # cs)))"

text \<open>The result of \<open>changed_files\<close> is a \<open>dict\<close> from category to list of paths.\<close>

type_synonym change_set = "(string \<times> string list) list"

definition key_def :: "(string \<times> string) list" where
  "key_def =
     [(''A'', ''added''), (''D'', ''deleted''), (''M'', ''modified''), (''U'', ''unmerged''),
      (''X'', ''unknown''), (''B'', ''broken''), (''C'', ''copied''), (''R'', ''renamed'')]"

text \<open>\<open>out[k]\<close> with the empty list for a missing key, and
  \<open>out.setdefault(k, []).extend(paths)\<close>.\<close>

definition paths_of :: "change_set \<Rightarrow> string \<Rightarrow> string list" where
  "paths_of out k = (case map_of out k of None \<Rightarrow> [] | Some ps \<Rightarrow> ps)"

definition setdefault_extend :: "string \<Rightarrow> string list \<Rightarrow> change_set \<Rightarrow> change_set" where
  "setdefault_extend k paths out = AList.update k (paths_of out k @ paths) out"

text \<open>
  One turn of the loop of \<open>Git.changed_files\<close> over a line \<open>change\<close>. \<open>key[0]\<close> raises
  \<open>IndexError\<close> on an empty status, \<open>int(key[1:])\<close> raises \<open>ValueError\<close>, \<open>key_def[key]\<close>
  raises \<open>KeyError\<close>, and \<open>paths[0]\<close>, \<open>paths[1]\<close> raise \<open>IndexError\<close>. The call
  \<open>logger.error("Unknown file change type", change)\<close> for a letter other than C and R writes
  to the log and the turn goes on after it.
\<close>

definition changed_files_step :: "change_set \<Rightarrow> string \<Rightarrow> error + change_set" where
  "changed_files_step out change =
     (case split_on TAB change of
        [] \<Rightarrow> Inl ValueError
      | key # paths \<Rightarrow>
          (case map_of key_def key of
             Some category \<Rightarrow> Inr (setdefault_extend category paths out)
           | None \<Rightarrow>
               (case key of
                  [] \<Rightarrow> Inl IndexError
                | letter # score \<Rightarrow>
                    (case py_int score of
                       None \<Rightarrow> Inl ValueError
                     | Some similarity \<Rightarrow>
                         (case map_of key_def [letter] of
                            None \<Rightarrow> Inl KeyError
                          | Some category \<Rightarrow>
                              (let out_key =
                                 (if similarity \<noteq> 100 then category @ ''_modified'' else category)
                               in case paths of
                                    [] \<Rightarrow> Inl IndexError
                                  | [p0] \<Rightarrow> Inl IndexError
                                  | p0 # p1 # extra \<Rightarrow>
                                      Inr (setdefault_extend (out_key @ ''_to'') [p1]
                                            (setdefault_extend (out_key @ ''_from'') [p0] out))))))))"

fun changed_files_loop :: "change_set \<Rightarrow> string list \<Rightarrow> error + change_set" where
  "changed_files_loop out [] = Inr out"
| "changed_files_loop out (change # changes) =
     (case changed_files_step out change of
        Inl e \<Rightarrow> Inl e
      | Inr out' \<Rightarrow> changed_files_loop out' changes)"

text \<open>\<open>Git.changed_files\<close>, from the output of \<open>git diff --name-status\<close> on.\<close>

definition changed_files :: "string \<Rightarrow> error + change_set" where
  "changed_files output = changed_files_loop [] (splitlines output)"

text \<open>The paired category of a copy or rename with a similarity score, as the specification
  names it.\<close>

definition paired_category :: "char \<Rightarrow> int \<Rightarrow> string" where
  "paired_category letter similarity =
     (if letter = CHR ''C'' then ''copied'' else ''renamed'') @
     (if similarity = 100 then [] else ''_modified'')"

text \<open>What a line contributes to the paired lists: the category and the two paths, for a line
  whose status is a letter with a score.\<close>

definition paired_entry :: "string \<Rightarrow> (string \<times> string \<times> string) option" where
  "paired_entry change =
     (case split_on TAB change of
        (letter # score) # p0 # p1 # extra \<Rightarrow>
          (if map_of key_def (letter # score) = None
           then (case (py_int score, map_of key_def [letter]) of
                   (Some similarity, Some category) \<Rightarrow>
                     Some (if similarity \<noteq> 100 then category @ ''_modified'' else category, p0, p1)
                 | _ \<Rightarrow> None)
           else None)
      | _ \<Rightarrow> None)"

definition pairs_for :: "string \<Rightarrow> string list \<Rightarrow> (string \<times> string) list" where
  "pairs_for category changes =
     map snd (filter (\<lambda>e. fst e = category) (List.map_filter paired_entry changes))"

section \<open>The command runner and the repository object\<close>

text \<open>
  Modelled from the spec: the command runner \<open>pyshellman.run\<close> is an external library. By
  section 6 of the specification it executes an argument vector and returns exit code, stdout
  and stderr, and raises on a nonzero exit code or on text on stderr when asked to. The tool
  itself is a parameter \<open>rn\<close> of the model: a function from the argument vector and the state
  of the environment to the new state and the output. The world carries, beside the
  environment, the list of the invocations made so far, each with its exit code.
\<close>

record shell_output =
  code :: int
  stdout :: string
  stderr :: string

record 'e world =
  calls :: "(string list \<times> int) list"
  env :: 'e

type_synonym 'e runner = "string list \<Rightarrow> 'e \<Rightarrow> 'e \<times> shell_output"

type_synonym ('e, 'a) result = "'e world \<times> (error + 'a)"

definition pyshellman_run ::
  "'e runner \<Rightarrow> string list \<Rightarrow> bool \<Rightarrow> bool \<Rightarrow> 'e world \<Rightarrow> ('e, shell_output) result" where
  "pyshellman_run rn command raise_exit_code raise_stderr w =
     (case rn command (env w) of
        (e', r) \<Rightarrow>
          (let w' = \<lparr>calls = calls w @ [(command, code r)], env = e'\<rparr> in
           if raise_exit_code \<and> code r \<noteq> 0 then (w', Inl PyShellManError)
           else if raise_stderr \<and> stderr r \<noteq> [] then (w', Inl PyShellManError)
           else (w', Inr r)))"

text \<open>\<open>Git._run_command\<close>: the command with \<open>git\<close> in front.\<close>

definition run_command_inner ::
  "'e runner \<Rightarrow> string list \<Rightarrow> bool \<Rightarrow> bool \<Rightarrow> 'e world \<Rightarrow> ('e, shell_output) result" where
  "run_command_inner rn command raise_exit_code raise_stderr w =
     pyshellman_run rn (''git'' # command) raise_exit_code raise_stderr w"

text \<open>The fields of a \<open>Git\<close> object that the identity handling reads. A scope is a string or
  \<open>None\<close>; the original values are strings or \<open>None\<close>.\<close>

record git =
  author_persistent :: bool
  author_username :: string
  author_email :: string
  author_scope :: "string option"
  original_author_username :: "string option"
  original_author_email :: "string option"
  committer_persistent :: bool
  committer_username :: string
  committer_email :: string
  committer_scope :: "string option"
  original_committer_username :: "string option"
  original_committer_email :: "string option"

text \<open>\<open>cmd = ["config"]\<close>, with \<open>--scope\<close> appended when the scope is neither \<open>None\<close> nor
  empty.\<close>

definition config_cmd :: "string option \<Rightarrow> string list" where
  "config_cmd scope =
     (case scope of
        None \<Rightarrow> [''config'']
      | Some s \<Rightarrow> if s = [] then [''config''] else [''config'', ''--'' @ s])"

text \<open>
  \<open>Git.set_user\<close>. One turn of its loop over \<open>("name", username)\<close> and \<open>("email", email)\<close>:
  \<open>None\<close> unsets the key, a non-empty string writes it, the empty string does nothing. Both
  commands run with \<open>raise_exit_code=True\<close>. The arguments are strings or \<open>None\<close> by their
  type, so the \<open>isinstance\<close> check of the source never raises here.
\<close>

definition set_user_field ::
  "'e runner \<Rightarrow> string list \<Rightarrow> string \<Rightarrow> string \<Rightarrow> string option \<Rightarrow> 'e world \<Rightarrow> ('e, unit) result" where
  "set_user_field rn cmd user_type key val w =
     (case val of
        None \<Rightarrow>
          (case run_command_inner rn (cmd @ [''--unset'', user_type @ ''.'' @ key]) True False w of
             (w', Inl e) \<Rightarrow> (w', Inl e)
           | (w', Inr r) \<Rightarrow> (w', Inr ()))
      | Some v \<Rightarrow>
          if v \<noteq> []
          then (case run_command_inner rn (cmd @ [user_type @ ''.'' @ key, v]) True False w of
                  (w', Inl e) \<Rightarrow> (w', Inl e)
                | (w', Inr r) \<Rightarrow> (w', Inr ()))
          else (w, Inr ()))"

definition set_user ::
  "'e runner \<Rightarrow> string option \<Rightarrow> string option \<Rightarrow> string \<Rightarrow> string option \<Rightarrow> 'e world \<Rightarrow> ('e, unit) result" where
  "set_user rn username email user_type scope w =
     (case set_user_field rn (config_cmd scope) user_type ''name'' username w of
        (w', Inl e) \<Rightarrow> (w', Inl e)
      | (w', Inr u) \<Rightarrow> set_user_field rn (config_cmd scope) user_type ''email'' email w')"

text \<open>\<open>Git.get_user\<close>: exit code 0 gives the value, exit code 1 with no output gives \<open>None\<close>,
  anything else reaches the \<open>raise\<close> of the undefined \<open>GitTidyOperationError\<close>.\<close>

definition get_user_field ::
  "'e runner \<Rightarrow> string list \<Rightarrow> string \<Rightarrow> string \<Rightarrow> 'e world \<Rightarrow> ('e, string option) result" where
  "get_user_field rn cmd user_type key w =
     (case run_command_inner rn (cmd @ [user_type @ ''.'' @ key]) False False w of
        (w', Inl e) \<Rightarrow> (w', Inl e)
      | (w', Inr r) \<Rightarrow>
          if code r = 0 then (w', Inr (Some (stdout r)))
          else if code r = 1 \<and> stdout r = [] then (w', Inr None)
          else (w', Inl AttributeError))"

definition get_user ::
  "'e runner \<Rightarrow> string \<Rightarrow> string option \<Rightarrow> 'e world \<Rightarrow> ('e, string option \<times> string option) result" where
  "get_user rn user_type scope w =
     (case get_user_field rn (config_cmd scope) user_type ''name'' w of
        (w', Inl e) \<Rightarrow> (w', Inl e)
      | (w', Inr name) \<Rightarrow>
          (case get_user_field rn (config_cmd scope) user_type ''email'' w' of
             (w'', Inl e) \<Rightarrow> (w'', Inl e)
           | (w'', Inr email) \<Rightarrow> (w'', Inr (name, email))))"

text \<open>
  \<open>Git.__init__\<close> from the handling of \<open>user\<close> on (the two probes for the git executable and
  for the repository root come before it). A role that is given and not persistent has its
  current values read into the \<open>original\<close> fields; a role that is not given counts as
  persistent.
\<close>

definition init_role ::
  "'e runner \<Rightarrow> string \<Rightarrow> (string \<times> string) option \<Rightarrow> string option \<Rightarrow> bool \<Rightarrow> 'e world \<Rightarrow>
   ('e, bool \<times> string \<times> string \<times> string option \<times> string option \<times> string option) result" where
  "init_role rn user_type role scope persistent w =
     (case role of
        None \<Rightarrow> (w, Inr (True, [], [], None, None, None))
      | Some (username, email) \<Rightarrow>
          if persistent
          then (case set_user rn (Some username) (Some email) user_type scope w of
                  (w', Inl e) \<Rightarrow> (w', Inl e)
                | (w', Inr u) \<Rightarrow> (w', Inr (True, username, email, scope, None, None)))
          else (case get_user rn user_type scope w of
                  (w', Inl e) \<Rightarrow> (w', Inl e)
                | (w', Inr (name0, email0)) \<Rightarrow>
                    (w', Inr (False, username, email, scope, name0, email0))))"

definition init ::
  "'e runner \<Rightarrow> (string \<times> string) option \<Rightarrow> string option \<Rightarrow>
   (string \<times> string) option \<Rightarrow> string option \<Rightarrow> bool \<Rightarrow>
   (string \<times> string) option \<Rightarrow> string option \<Rightarrow> bool \<Rightarrow> 'e world \<Rightarrow> ('e, git) result" where
  "init rn user user_scope author author_scope' author_persistent'
        committer committer_scope' committer_persistent' w =
     (case (case user of
              None \<Rightarrow> (w, Inr ())
            | Some (username, email) \<Rightarrow> set_user rn (Some username) (Some email) ''user'' user_scope w) of
        (w1, Inl e) \<Rightarrow> (w1, Inl e)
      | (w1, Inr u) \<Rightarrow>
          (case init_role rn ''author'' author author_scope' author_persistent' w1 of
             (w2, Inl e) \<Rightarrow> (w2, Inl e)
           | (w2, Inr (ap, au, ae, asc, aou, aoe)) \<Rightarrow>
               (case init_role rn ''committer'' committer committer_scope' committer_persistent' w2 of
                  (w3, Inl e) \<Rightarrow> (w3, Inl e)
                | (w3, Inr (cp, cu, ce, csc, cou, coe)) \<Rightarrow>
                    (w3, Inr \<lparr>author_persistent = ap, author_username = au, author_email = ae,
                              author_scope = asc, original_author_username = aou,
                              original_author_email = aoe,
                              committer_persistent = cp, committer_username = cu,
                              committer_email = ce, committer_scope = csc,
                              original_committer_username = cou,
                              original_committer_email = coe\<rparr>))))"

text \<open>
  \<open>Git._temporary_credentials\<close> is a generator under \<open>contextlib.contextmanager\<close>: the code
  before its \<open>yield\<close> runs on entry of the \<open>with\<close> block, the code after it on normal exit.
\<close>

definition enter_credentials :: "'e runner \<Rightarrow> git \<Rightarrow> 'e world \<Rightarrow> ('e, unit) result" where
  "enter_credentials rn g w =
     (case (if \<not> author_persistent g
            then set_user rn (Some (author_username g)) (Some (author_email g)) ''author''
                   (author_scope g) w
            else (w, Inr ())) of
        (w', Inl e) \<Rightarrow> (w', Inl e)
      | (w', Inr u) \<Rightarrow>
          if \<not> committer_persistent g
          then set_user rn (Some (committer_username g)) (Some (committer_email g)) ''committer''
                 (committer_scope g) w'
          else (w', Inr ()))"

definition exit_credentials :: "'e runner \<Rightarrow> git \<Rightarrow> 'e world \<Rightarrow> ('e, unit) result" where
  "exit_credentials rn g w =
     (case (if \<not> author_persistent g
            then set_user rn (original_author_username g) (original_author_email g) ''author''
                   (author_scope g) w
            else (w, Inr ())) of
        (w', Inl e) \<Rightarrow> (w', Inl e)
      | (w', Inr u) \<Rightarrow>
          if \<not> committer_persistent g
          then set_user rn (original_committer_username g) (original_committer_email g)
                 ''committer'' (committer_scope g) w'
          else (w', Inr ()))"

text \<open>
  \<open>Git.run_command\<close>. With \<open>needs_credentials\<close> the command runs inside
  \<open>with self._temporary_credentials()\<close>. An exception of the command is thrown into the
  generator at its \<open>yield\<close>; the generator has no \<open>try\<close> around the \<open>yield\<close>, so the exception
  leaves it there and the code after the \<open>yield\<close> does not run.
\<close>

definition run_command ::
  "'e runner \<Rightarrow> git \<Rightarrow> string list \<Rightarrow> bool \<Rightarrow> bool \<Rightarrow> bool \<Rightarrow> 'e world \<Rightarrow> ('e, shell_output) result" where
  "run_command rn g command needs_credentials raise_exit_code raise_stderr w =
     (if \<not> needs_credentials then run_command_inner rn command raise_exit_code raise_stderr w
      else
        (case enter_credentials rn g w of
           (w1, Inl e) \<Rightarrow> (w1, Inl e)
         | (w1, Inr u) \<Rightarrow>
             (case run_command_inner rn command raise_exit_code raise_stderr w1 of
                (w2, Inl e) \<Rightarrow> (w2, Inl e)
              | (w2, Inr r) \<Rightarrow>
                  (case exit_credentials rn g w2 of
                     (w3, Inl e) \<Rightarrow> (w3, Inl e)
                   | (w3, Inr u') \<Rightarrow> (w3, Inr r)))))"

section \<open>Commit\<close>

datatype stage = StageAll | StageTracked | StageNone

datatype check_type = Staged | Unstaged | AllChanges

text \<open>\<open>Git.has_changes\<close>: \<open>git diff --quiet\<close> exits with a nonzero code when there are changes;
  for \<open>"all"\<close>, \<open>any\<close> stops at the first command that reports changes.\<close>

definition diff_changed :: "'e runner \<Rightarrow> string list \<Rightarrow> 'e world \<Rightarrow> ('e, bool) result" where
  "diff_changed rn cmd w =
     (case run_command_inner rn cmd False False w of
        (w', Inl e) \<Rightarrow> (w', Inl e)
      | (w', Inr r) \<Rightarrow> (w', Inr (code r \<noteq> 0)))"

definition has_changes :: "'e runner \<Rightarrow> check_type \<Rightarrow> 'e world \<Rightarrow> ('e, bool) result" where
  "has_changes rn ct w =
     (case ct of
        Staged \<Rightarrow> diff_changed rn [''diff'', ''--quiet'', ''--cached''] w
      | Unstaged \<Rightarrow> diff_changed rn [''diff'', ''--quiet''] w
      | AllChanges \<Rightarrow>
          (case diff_changed rn [''diff'', ''--quiet'', ''--cached''] w of
             (w', Inl e) \<Rightarrow> (w', Inl e)
           | (w', Inr b) \<Rightarrow> if b then (w', Inr True) else diff_changed rn [''diff'', ''--quiet''] w'))"

text \<open>\<open>Git.commit_hash_normal\<close> for \<open>parent = 0\<close>, as \<open>commit\<close> calls it.\<close>

definition commit_hash_normal :: "'e runner \<Rightarrow> 'e world \<Rightarrow> ('e, string) result" where
  "commit_hash_normal rn w =
     (case run_command_inner rn [''rev-parse'', ''HEAD~0''] True False w of
        (w', Inl e) \<Rightarrow> (w', Inl e)
      | (w', Inr r) \<Rightarrow> (w', Inr (stdout r)))"

text \<open>The \<open>-m\<close> arguments: one for every non-empty line of the message.\<close>

definition message_args :: "string \<Rightarrow> string list" where
  "message_args message =
     concat (map (\<lambda>msg_line. [''-m'', msg_line]) (filter (\<lambda>msg_line. msg_line \<noteq> []) (splitlines message)))"

definition commit_cmd :: "string \<Rightarrow> bool \<Rightarrow> bool \<Rightarrow> string list" where
  "commit_cmd message amend allow_empty =
     [''commit''] @
     (if amend then [''--amend''] @ (if message = [] then [''--no-edit''] else []) else []) @
     (if allow_empty then [''--allow-empty''] else []) @
     message_args message"

text \<open>\<open>Git.commit\<close>. \<open>allow_empty or self.has_changes(...)\<close> does not probe when \<open>allow_empty\<close>
  is set. Without a message and without \<open>amend\<close> the source reaches
  \<open>raise _exception.GitTidyInputError(...)\<close>, which leaves with \<open>AttributeError\<close>.\<close>

definition commit ::
  "'e runner \<Rightarrow> git \<Rightarrow> string \<Rightarrow> stage \<Rightarrow> bool \<Rightarrow> bool \<Rightarrow> 'e world \<Rightarrow> ('e, string option) result" where
  "commit rn g message stg amend allow_empty w =
     (if \<not> amend \<and> message = [] then (w, Inl AttributeError)
      else
        (case (if stg \<noteq> StageNone
               then (case run_command rn g [''add'', if stg = StageAll then ''-A'' else ''-u'']
                            True True False w of
                       (w', Inl e) \<Rightarrow> (w', Inl e)
                     | (w', Inr r) \<Rightarrow> (w', Inr ()))
               else (w, Inr ())) of
           (w1, Inl e) \<Rightarrow> (w1, Inl e)
         | (w1, Inr u) \<Rightarrow>
             (case (if allow_empty then (w1, Inr True) else has_changes rn Staged w1) of
                (w2, Inl e) \<Rightarrow> (w2, Inl e)
              | (w2, Inr go) \<Rightarrow>
                  if go
                  then (case run_command rn g (commit_cmd message amend allow_empty)
                               True True False w2 of
                          (w3, Inl e) \<Rightarrow> (w3, Inl e)
                        | (w3, Inr r) \<Rightarrow>
                            (case commit_hash_normal rn w3 of
                               (w4, Inl e) \<Rightarrow> (w4, Inl e)
                             | (w4, Inr h) \<Rightarrow> (w4, Inr (Some h))))
                  else (w2, Inr None))))"

text \<open>The invocations of \<open>git commit\<close>, and the probe for staged changes with its exit code.\<close>

definition is_commit_call :: "string list \<times> int \<Rightarrow> bool" where
  "is_commit_call c = (take 2 (fst c) = [''git'', ''commit''])"

definition staged_probe :: "string list" where
  "staged_probe = [''git'', ''diff'', ''--quiet'', ''--cached'']"

definition is_staged_report :: "string list \<times> int \<Rightarrow> bool" where
  "is_staged_report c = (fst c = staged_probe \<and> snd c \<noteq> 0)"

text \<open>The configuration commands that \<open>set_user\<close> has to issue for one field: one that unsets
  the key for \<open>None\<close>, one that writes it for a non-empty string, none for the empty string.\<close>

definition field_commands :: "string option \<Rightarrow> string \<Rightarrow> string \<Rightarrow> string option \<Rightarrow> string list list" where
  "field_commands scope user_type key val =
     (case val of
        None \<Rightarrow> [''git'' # config_cmd scope @ [''--unset'', user_type @ ''.'' @ key]]
      | Some v \<Rightarrow> if v = [] then [] else [''git'' # config_cmd scope @ [user_type @ ''.'' @ key, v]])"

text \<open>Running commands one after the other, each with \<open>raise_exit_code=True\<close>: the first
  command that exits with a nonzero code raises, and the commands after it are not run.\<close>

fun run_all :: "'e runner \<Rightarrow> string list list \<Rightarrow> 'e world \<Rightarrow> ('e, unit) result" where
  "run_all rn [] w = (w, Inr ())"
| "run_all rn (c # cs) w =
     (case rn c (env w) of
        (e', r) \<Rightarrow>
          if code r \<noteq> 0
          then (\<lparr>calls = calls w @ [(c, code r)], env = e'\<rparr>, Inl PyShellManError)
          else run_all rn cs \<lparr>calls = calls w @ [(c, code r)], env = e'\<rparr>)"

section \<open>A simulated git for concrete runs\<close>

text \<open>
  A runner to run the operations on: the environment is the list of the configuration keys
  with their values, and the key \<open>staged\<close> while the index holds changes. \<open>git config\<close>
  reads, writes and unsets a key as git does (reading a missing key exits with 1, unsetting a
  missing key with 5); \<open>git add\<close> stages changes, \<open>git diff --quiet\<close> exits with 1 when
  changes are staged, \<open>git commit\<close> clears the index, \<open>git push\<close> fails with exit code 128,
  and every other command succeeds.
\<close>

definition sim_config :: "string list \<Rightarrow> (string \<times> string) list \<Rightarrow> (string \<times> string) list \<times> shell_output" where
  "sim_config args e =
     (case args of
        [key] \<Rightarrow>
          (case map_of e key of
             Some v \<Rightarrow> (e, \<lparr>code = 0, stdout = v, stderr = []\<rparr>)
           | None \<Rightarrow> (e, \<lparr>code = 1, stdout = [], stderr = []\<rparr>))
      | [a, b] \<Rightarrow>
          if a = ''--unset''
          then (case map_of e b of
                  Some v \<Rightarrow> (AList.delete b e, \<lparr>code = 0, stdout = [], stderr = []\<rparr>)
                | None \<Rightarrow> (e, \<lparr>code = 5, stdout = [], stderr = []\<rparr>))
          else (AList.update a b e, \<lparr>code = 0, stdout = [], stderr = []\<rparr>)
      | _ \<Rightarrow> (e, \<lparr>code = 129, stdout = [], stderr = ''usage: git config''\<rparr>))"

definition sim_git :: "(string \<times> string) list runner" where
  "sim_git command e =
     (if take 2 command = [''git'', ''config'']
      then sim_config (filter (\<lambda>a. a = ''--unset'' \<or> \<not> startswith a ''--'') (drop 2 command)) e
      else if take 2 command = [''git'', ''push'']
      then (e, \<lparr>code = 128, stdout = [], stderr = ''fatal: unable to access the remote''\<rparr>)
      else if take 2 command = [''git'', ''add'']
      then (AList.update ''staged'' ''yes'' e, \<lparr>code = 0, stdout = [], stderr = []\<rparr>)
      else if take 2 command = [''git'', ''diff'']
      then (e, \<lparr>code = (if map_of e ''staged'' = None then 0 else 1), stdout = [], stderr = []\<rparr>)
      else if take 2 command = [''git'', ''commit'']
      then (AList.delete ''staged'' e, \<lparr>code = 0, stdout = [], stderr = []\<rparr>)
      else if take 2 command = [''git'', ''rev-parse'']
      then (e, \<lparr>code = 0, stdout = ''0123abc'', stderr = []\<rparr>)
      else (e, \<lparr>code = 0, stdout = [], stderr = []\<rparr>))"

text \<open>A world to start from, in which the author identity is configured, and a repository
  object that was built without any override.\<close>

definition sim_world :: "(string \<times> string) list world" where
  "sim_world =
     \<lparr>calls = [], env = [(''author.name'', ''Orig''), (''author.email'', ''orig@example.org'')]\<rparr>"

definition no_override :: git where
  "no_override =
     \<lparr>author_persistent = True, author_username = [], author_email = [], author_scope = None,
      original_author_username = None, original_author_email = None,
      committer_persistent = True, committer_username = [], committer_email = [],
      committer_scope = None, original_committer_username = None,
      original_committer_email = None\<rparr>"

section \<open>Commit-log decoder\<close>




record commit_info =
  hash :: string
  author :: string
  date :: string
  msg :: string
  files :: "string list"





chapter \<open>Verified properties\<close>

section \<open>Properties of the branch-list decoder\<close>

lemma branch_loop_eq:
  "branch_loop (cur, oth) ls =
     (cur @ map (\<lambda>l. strip (removeprefix (strip l) ''*'')) (filter marked ls),
      oth @ map strip (filter unmarked ls))"
proof (induction ls arbitrary: cur oth)
  case Nil
  show ?case by simp
next
  case (Cons l ls)
  show ?case
  proof (cases "strip l = []")
    case True
    then show ?thesis using Cons by (simp add: marked_def unmarked_def startswith_def)
  next
    case False
    then show ?thesis using Cons by (simp add: marked_def unmarked_def Let_def)
  qed
qed

text \<open>
  C6. A listing with more than one line carrying the current-branch marker makes the decoder
  leave with \<open>AttributeError\<close>, not with \<open>GitTidyOperationError\<close>: the \<open>raise\<close> statement
  names a class that \<open>gittidy.exception\<close> does not define. A listing with exactly one such
  line \<open>m\<close> is decoded to that line without its marker as the current branch, and to the other
  lines that are not blank, in the order of the input, as the other branches (every line is read
  trimmed).
\<close>

theorem get_all_branch_names_marked:
  "(length (filter marked (split_on NL out)) > 1 \<longrightarrow>
      get_all_branch_names out = Inl AttributeError) \<and>
   (\<forall>m. filter marked (split_on NL out) = [m] \<longrightarrow>
      get_all_branch_names out =
        Inr (strip (removeprefix (strip m) ''*''),
             map strip (filter unmarked (split_on NL out))))"
proof -
  have loop: "branch_loop ([], []) (split_on NL out) =
      (map (\<lambda>l. strip (removeprefix (strip l) ''*'')) (filter marked (split_on NL out)),
       map strip (filter unmarked (split_on NL out)))"
    by (simp add: branch_loop_eq)
  show ?thesis
    unfolding get_all_branch_names_def loop by simp
qed

theorem get_all_branch_names_marked_witness:
  "length (filter marked (split_on NL (''* main'' @ [NL] @ ''* dev''))) > 1 \<and>
   get_all_branch_names (''* main'' @ [NL] @ ''* dev'') = Inl AttributeError \<and>
   filter marked (split_on NL (''  dev'' @ [NL] @ ''* main'' @ [NL] @ ''  feat'' @ [NL]))
     = [''* main''] \<and>
   get_all_branch_names (''  dev'' @ [NL] @ ''* main'' @ [NL] @ ''  feat'' @ [NL])
     = Inr (''main'', [''dev'', ''feat''])"
proof -
  have two: "length (filter marked (split_on NL (''* main'' @ [NL] @ ''* dev''))) > 1"
    by code_simp
  have one: "filter marked (split_on NL (''  dev'' @ [NL] @ ''* main'' @ [NL] @ ''  feat'' @ [NL]))
     = [''* main'']"
    by code_simp
  have others: "map strip (filter unmarked
      (split_on NL (''  dev'' @ [NL] @ ''* main'' @ [NL] @ ''  feat'' @ [NL]))) = [''dev'', ''feat'']"
    by code_simp
  have cur: "strip (removeprefix (strip ''* main'') ''*'') = ''main''"
    by code_simp
  from get_all_branch_names_marked [of "''* main'' @ [NL] @ ''* dev''"] two
  have a: "get_all_branch_names (''* main'' @ [NL] @ ''* dev'') = Inl AttributeError"
    by blast
  from get_all_branch_names_marked [of "''  dev'' @ [NL] @ ''* main'' @ [NL] @ ''  feat'' @ [NL]"] one
  have "get_all_branch_names (''  dev'' @ [NL] @ ''* main'' @ [NL] @ ''  feat'' @ [NL]) =
        Inr (strip (removeprefix (strip ''* main'') ''*''),
             map strip (filter unmarked
               (split_on NL (''  dev'' @ [NL] @ ''* main'' @ [NL] @ ''  feat'' @ [NL]))))"
    by blast
  then have b: "get_all_branch_names (''  dev'' @ [NL] @ ''* main'' @ [NL] @ ''  feat'' @ [NL])
     = Inr (''main'', [''dev'', ''feat''])"
    unfolding others cur .
  from two a one b show ?thesis by blast
qed

text \<open>
  C9. A listing in which no line carries the current-branch marker (the empty output among
  them) is not decoded and does not raise \<open>GitTidyOperationError\<close>: taking the first element
  of the empty list of current branches fails with \<open>IndexError\<close>.
\<close>

theorem get_all_branch_names_unmarked:
  assumes "filter marked (split_on NL out) = []"
  shows "get_all_branch_names out = Inl IndexError"
proof -
  have "branch_loop ([], []) (split_on NL out) =
      ([], map strip (filter unmarked (split_on NL out)))"
    using assms by (simp add: branch_loop_eq)
  then show ?thesis
    by (simp add: get_all_branch_names_def)
qed

theorem get_all_branch_names_unmarked_witness:
  "filter marked (split_on NL (''  main'' @ [NL] @ ''  dev'')) = [] \<and>
   get_all_branch_names (''  main'' @ [NL] @ ''  dev'') = Inl IndexError \<and>
   filter marked (split_on NL []) = [] \<and>
   get_all_branch_names [] = Inl IndexError"
proof -
  have h1: "filter marked (split_on NL (''  main'' @ [NL] @ ''  dev'')) = []"
    by code_simp
  have h2: "filter marked (split_on NL []) = []"
    by code_simp
  from h1 get_all_branch_names_unmarked [OF h1] h2 get_all_branch_names_unmarked [OF h2]
  show ?thesis by blast
qed

section \<open>Properties of the remote-table decoder\<close>

lemma entry_key_triple: "entry_key (n, p, u) = (n, p)"
  by (simp add: entry_key_def)

lemma table_url_update:
  "table_url (AList.update n (AList.update p u (case map_of rs n of None \<Rightarrow> [] | Some d \<Rightarrow> d)) rs) n' p' =
     (if n' = n \<and> p' = p then Some u else table_url rs n' p')"
  by (auto simp: table_url_def update_conv' split: option.splits)

lemma map_of_entry_kv_None:
  "map_of (map entry_kv es) (n, p) = None \<longleftrightarrow> (n, p) \<notin> set (map entry_key es)"
  by (induction es) (auto simp: entry_kv_def entry_key_def)

lemma remotes_step_dup:
  assumes "table_inv rs es" "parse_remote_line l = Inr (n, p, u)" "(n, p) \<in> set (map entry_key es)"
  shows "remotes_step rs l = Inl AttributeError"
proof -
  have "table_url rs n p \<noteq> None"
    using assms(1,3) map_of_entry_kv_None[of es n p] by (simp add: table_inv_def)
  then show ?thesis using assms(2)
    by (auto simp: remotes_step_def table_url_def Let_def split: option.splits)
qed

lemma remotes_step_new:
  assumes "table_inv rs es" "parse_remote_line l = Inr (n, p, u)" "(n, p) \<notin> set (map entry_key es)"
  shows "\<exists>rs'. remotes_step rs l = Inr rs' \<and> table_inv rs' (es @ [(n, p, u)])"
proof -
  let ?d = "case map_of rs n of None \<Rightarrow> [] | Some d \<Rightarrow> d"
  let ?rs = "AList.update n (AList.update p u ?d) rs"
  have none: "table_url rs n p = None"
    using assms(1,3) map_of_entry_kv_None[of es n p] by (simp add: table_inv_def)
  then have "map_of ?d p = None"
    by (auto simp: table_url_def split: option.splits)
  then have step: "remotes_step rs l = Inr ?rs"
    using assms(2) by (simp add: remotes_step_def Let_def)
  have d: "distinct (map fst ?rs)"
    using assms(1) by (simp add: table_inv_def distinct_update)
  have k: "set (map fst ?rs) = set (map fst (es @ [(n, p, u)]))"
    using assms(1) by (auto simp: table_inv_def update_keys)
  have u: "table_url ?rs n' p' = map_of (map entry_kv (es @ [(n, p, u)])) (n', p')" for n' p'
  proof -
    have "map_of (map entry_kv (es @ [(n, p, u)])) (n', p') =
          (case map_of (map entry_kv es) (n', p') of Some v \<Rightarrow> Some v
           | None \<Rightarrow> if n' = n \<and> p' = p then Some u else None)"
      by (auto simp: map_add_def entry_kv_def split: option.splits)
    moreover have "table_url rs n' p' = map_of (map entry_kv es) (n', p')"
      using assms(1) by (simp add: table_inv_def)
    ultimately show ?thesis
      using none by (auto simp: table_url_update split: option.splits)
  qed
  show ?thesis using step d k u unfolding table_inv_def by blast
qed

lemma remotes_loop_inv:
  assumes "table_inv rs es0" "map parse_remote_line ls = map Inr es" "distinct (map entry_key es0)"
  shows "(distinct (map entry_key (es0 @ es)) \<longrightarrow>
            (\<exists>rs'. remotes_loop rs ls = Inr rs' \<and> table_inv rs' (es0 @ es))) \<and>
         (\<not> distinct (map entry_key (es0 @ es)) \<longrightarrow> remotes_loop rs ls = Inl AttributeError)"
  using assms
proof (induction ls arbitrary: rs es0 es)
  case Nil
  then show ?case by simp
next
  case (Cons l ls)
  then obtain e es' where es: "es = e # es'" and pl: "parse_remote_line l = Inr e"
    and rest: "map parse_remote_line ls = map Inr es'"
    by (cases es) auto
  obtain n p u where e: "e = (n, p, u)" by (cases e) auto
  show ?case
  proof (cases "(n, p) \<in> set (map entry_key es0)")
    case True
    then have "remotes_step rs l = Inl AttributeError"
      using remotes_step_dup[OF Cons.prems(1)] pl e by simp
    moreover have "\<not> distinct (map entry_key (es0 @ es))"
      using True es e by (simp add: entry_key_triple)
    ultimately show ?thesis by simp
  next
    case False
    then obtain rs' where st: "remotes_step rs l = Inr rs'" and inv: "table_inv rs' (es0 @ [(n, p, u)])"
      using remotes_step_new[OF Cons.prems(1)] pl e by blast
    have d: "distinct (map entry_key (es0 @ [(n, p, u)]))"
      using False Cons.prems(3) by (simp add: entry_key_triple)
    have eq: "(es0 @ [(n, p, u)]) @ es' = es0 @ es" using es e by simp
    from Cons.IH[OF inv rest d] show ?thesis
      unfolding eq using st by simp
  qed
qed

lemma remotes_loop_append:
  "remotes_loop rs (pre @ post) =
     (case remotes_loop rs pre of Inl e \<Rightarrow> Inl e | Inr rs' \<Rightarrow> remotes_loop rs' post)"
  by (induction pre arbitrary: rs) (auto split: sum.splits)

lemma table_inv_empty: "table_inv [] []"
  by (simp add: table_inv_def table_url_def)

text \<open>
  C5. Let the lines of a remote table be lines of three fields. If, up to some line, a pair of
  remote name and purpose has occurred twice, the decoder does not overwrite the first URL, but
  it leaves with \<open>AttributeError\<close>, not with \<open>GitTidyOperationError\<close>: the \<open>raise\<close>
  statement names a class that \<open>gittidy.exception\<close> does not define. If no pair occurs twice
  in the whole table, the decoder returns a mapping with exactly one key per remote name, that
  holds under each remote name and purpose the URL of that line.
\<close>

theorem get_remotes_duplicates:
  "(\<forall>pre post es. splitlines out = pre @ post \<and> map parse_remote_line pre = map Inr es \<and>
        \<not> distinct (map entry_key es) \<longrightarrow>
      get_remotes out = Inl AttributeError) \<and>
   (\<forall>es. map parse_remote_line (splitlines out) = map Inr es \<and> distinct (map entry_key es) \<longrightarrow>
      (\<exists>remotes. get_remotes out = Inr remotes \<and>
         distinct (map fst remotes) \<and> set (map fst remotes) = set (map fst es) \<and>
         (\<forall>n p. table_url remotes n p = map_of (map entry_kv es) (n, p))))"
proof (intro conjI allI impI)
  fix pre post es
  assume a: "splitlines out = pre @ post \<and> map parse_remote_line pre = map Inr es \<and>
        \<not> distinct (map entry_key es)"
  then have "remotes_loop [] pre = Inl AttributeError"
    using remotes_loop_inv[OF table_inv_empty, of pre es] by simp
  then show "get_remotes out = Inl AttributeError"
    using a by (simp add: get_remotes_def remotes_loop_append)
next
  fix es
  assume a: "map parse_remote_line (splitlines out) = map Inr es \<and> distinct (map entry_key es)"
  then obtain rs' where "remotes_loop [] (splitlines out) = Inr rs'" "table_inv rs' es"
    using remotes_loop_inv[OF table_inv_empty, of "splitlines out" es] by auto
  then show "\<exists>remotes. get_remotes out = Inr remotes \<and>
         distinct (map fst remotes) \<and> set (map fst remotes) = set (map fst es) \<and>
         (\<forall>n p. table_url remotes n p = map_of (map entry_kv es) (n, p))"
    unfolding get_remotes_def table_inv_def by blast
qed

theorem get_remotes_duplicates_witness:
  "splitlines (''origin u1 (fetch)'' @ [NL] @ ''origin u2 (fetch)'' @ [NL] @ ''junk'') =
     [''origin u1 (fetch)'', ''origin u2 (fetch)''] @ [''junk''] \<and>
   map parse_remote_line [''origin u1 (fetch)'', ''origin u2 (fetch)''] =
     map Inr [(''origin'', ''fetch'', ''u1''), (''origin'', ''fetch'', ''u2'')] \<and>
   \<not> distinct (map entry_key [(''origin'', ''fetch'', ''u1''), (''origin'', ''fetch'', ''u2'')]) \<and>
   get_remotes (''origin u1 (fetch)'' @ [NL] @ ''origin u2 (fetch)'' @ [NL] @ ''junk'') =
     Inl AttributeError \<and>
   map parse_remote_line (splitlines (''origin u1 (fetch)'' @ [NL] @ ''origin u1 (push)'' @ [NL] @
       ''upstream u2 (fetch)'' @ [NL] @ ''upstream u2 (push)'' @ [NL])) =
     map Inr [(''origin'', ''fetch'', ''u1''), (''origin'', ''push'', ''u1''),
              (''upstream'', ''fetch'', ''u2''), (''upstream'', ''push'', ''u2'')] \<and>
   distinct (map entry_key [(''origin'', ''fetch'', ''u1''), (''origin'', ''push'', ''u1''),
              (''upstream'', ''fetch'', ''u2''), (''upstream'', ''push'', ''u2'')]) \<and>
   (\<exists>remotes. get_remotes (''origin u1 (fetch)'' @ [NL] @ ''origin u1 (push)'' @ [NL] @
       ''upstream u2 (fetch)'' @ [NL] @ ''upstream u2 (push)'' @ [NL]) = Inr remotes \<and>
      distinct (map fst remotes) \<and>
      set (map fst remotes) = set (map fst [(''origin'', ''fetch'', ''u1''), (''origin'', ''push'', ''u1''),
              (''upstream'', ''fetch'', ''u2''), (''upstream'', ''push'', ''u2'')]) \<and>
      (\<forall>n p. table_url remotes n p =
         map_of (map entry_kv [(''origin'', ''fetch'', ''u1''), (''origin'', ''push'', ''u1''),
              (''upstream'', ''fetch'', ''u2''), (''upstream'', ''push'', ''u2'')]) (n, p)))"
proof -
  let ?bad = "''origin u1 (fetch)'' @ [NL] @ ''origin u2 (fetch)'' @ [NL] @ ''junk''"
  let ?good = "''origin u1 (fetch)'' @ [NL] @ ''origin u1 (push)'' @ [NL] @
       ''upstream u2 (fetch)'' @ [NL] @ ''upstream u2 (push)'' @ [NL]"
  have s: "splitlines ?bad = [''origin u1 (fetch)'', ''origin u2 (fetch)''] @ [''junk'']"
    by code_simp
  have p: "map parse_remote_line [''origin u1 (fetch)'', ''origin u2 (fetch)''] =
     map Inr [(''origin'', ''fetch'', ''u1''), (''origin'', ''fetch'', ''u2'')]"
    by code_simp
  have nd: "\<not> distinct (map entry_key [(''origin'', ''fetch'', ''u1''), (''origin'', ''fetch'', ''u2'')])"
    by code_simp
  have g: "map parse_remote_line (splitlines ?good) =
     map Inr [(''origin'', ''fetch'', ''u1''), (''origin'', ''push'', ''u1''),
              (''upstream'', ''fetch'', ''u2''), (''upstream'', ''push'', ''u2'')]"
    by code_simp
  have d: "distinct (map entry_key [(''origin'', ''fetch'', ''u1''), (''origin'', ''push'', ''u1''),
              (''upstream'', ''fetch'', ''u2''), (''upstream'', ''push'', ''u2'')])"
    by code_simp
  have bad: "get_remotes ?bad = Inl AttributeError"
    using get_remotes_duplicates [of ?bad] s p nd by blast
  have good: "\<exists>remotes. get_remotes ?good = Inr remotes \<and>
      distinct (map fst remotes) \<and>
      set (map fst remotes) = set (map fst [(''origin'', ''fetch'', ''u1''), (''origin'', ''push'', ''u1''),
              (''upstream'', ''fetch'', ''u2''), (''upstream'', ''push'', ''u2'')]) \<and>
      (\<forall>n p. table_url remotes n p =
         map_of (map entry_kv [(''origin'', ''fetch'', ''u1''), (''origin'', ''push'', ''u1''),
              (''upstream'', ''fetch'', ''u2''), (''upstream'', ''push'', ''u2'')]) (n, p))"
    using get_remotes_duplicates [of ?good] g d by blast
  from s p nd bad g d good show ?thesis by blast
qed

section \<open>Properties of the repository-name lookup\<close>

lemma first_some_append:
  "first_some f (xs @ ys) = (case first_some f xs of Some r \<Rightarrow> Some r | None \<Rightarrow> first_some f ys)"
  by (induction xs) (auto split: option.splits)

lemma purposes_loop_first:
  "purposes_loop d = first_some extract_repo_name_from_url (map snd d)"
  by (induction d rule: purposes_loop.induct) (auto split: option.splits)

lemma other_purposes_loop_first:
  "other_purposes_loop rp d =
     first_some extract_repo_name_from_url (map snd (filter (\<lambda>e. fst e \<noteq> rp) d))"
  by (induction rp d rule: other_purposes_loop.induct) (auto split: option.splits)

lemma names_loop_first:
  "names_loop rp rs =
     first_some extract_repo_name_from_url (concat (map (\<lambda>r. remote_urls rp (snd r)) rs))"
  by (induction rp rs rule: names_loop.induct)
     (auto simp: first_some_append other_purposes_loop_first remote_urls_def split: option.splits)

lemma remote_repo_name_visits:
  "remote_repo_name remotes remote_name remote_purpose fallback_name fallback_purpose =
     first_some extract_repo_name_from_url
       (visited_urls remotes remote_name remote_purpose fallback_name fallback_purpose)"
proof (cases "remotes = []")
  case True
  then show ?thesis by (simp add: remote_repo_name_def visited_urls_def)
next
  case False
  then show ?thesis
    by (auto simp: remote_repo_name_def visited_urls_def first_some_append purposes_loop_first
        names_loop_first split: option.splits)
qed

lemma first_some_None: "first_some f xs = None \<longleftrightarrow> (\<forall>x \<in> set xs. f x = None)"
  by (induction xs) (auto split: option.splits)

lemma first_some_skip:
  assumes "set ys \<subseteq> set ps"
  shows "first_some f (ps @ xs @ ys @ zs) = first_some f (ps @ xs @ zs)"
proof (cases "first_some f ps")
  case None
  then have "first_some f ys = None" using assms by (auto simp: first_some_None)
  then show ?thesis by (auto simp: first_some_append split: option.splits)
next
  case (Some r)
  then show ?thesis by (auto simp: first_some_append split: option.splits)
qed

lemma filter_other_remotes_absent:
  assumes "map_of remotes remote_name = None"
  shows "filter (\<lambda>r. fst r \<noteq> remote_name) remotes = remotes"
proof -
  have "remote_name \<notin> fst ` set remotes" using assms by (simp add: map_of_eq_None_iff)
  then show ?thesis by (auto simp: filter_id_conv)
qed

lemma filter_other_remotes_present:
  assumes "distinct (map fst remotes)" "map_of remotes remote_name = Some d"
  shows "\<exists>pre post. remotes = pre @ (remote_name, d) # post \<and>
           filter (\<lambda>r. fst r \<noteq> remote_name) remotes = pre @ post"
proof -
  have "(remote_name, d) \<in> set remotes" using assms(2) by (rule map_of_SomeD)
  then obtain pre post where sp: "remotes = pre @ (remote_name, d) # post"
    by (auto dest: split_list)
  have "remote_name \<notin> fst ` set pre" "remote_name \<notin> fst ` set post"
    using assms(1) unfolding sp by auto
  then have "filter (\<lambda>r. fst r \<noteq> remote_name) pre = pre"
    "filter (\<lambda>r. fst r \<noteq> remote_name) post = post"
    by (auto simp: filter_id_conv)
  then have "filter (\<lambda>r. fst r \<noteq> remote_name) remotes = pre @ post"
    unfolding sp by simp
  with sp show ?thesis by blast
qed

text \<open>
  C8, as amended. In a table with one entry per remote name, the repository name is the result
  of the first URL from which the extraction succeeds, the URLs being tried in this order: the
  exact (remote, purpose) entry; with the fallback by purpose, every entry of the same remote,
  in the order of the table; with the fallback by name, every other remote of the table in
  turn, its entry for the requested purpose first and its entries for the other purposes after
  it. This is stated for the calls in which the fallback by name comes with the fallback by
  purpose, or the requested remote has no entry for another purpose.
\<close>

theorem remote_repo_name_order:
  assumes "distinct (map fst remotes)"
    and "fallback_purpose \<or> other_purposes remotes remote_name remote_purpose = [] \<or> \<not> fallback_name"
  shows "remote_repo_name remotes remote_name remote_purpose fallback_name fallback_purpose =
     first_some extract_repo_name_from_url
       (lookup_order remotes remote_name remote_purpose fallback_name fallback_purpose)"
proof (cases "map_of remotes remote_name")
  case None
  then show ?thesis
    unfolding remote_repo_name_visits visited_urls_def lookup_order_def
    by (simp add: filter_other_remotes_absent)
next
  case (Some d)
  show ?thesis
  proof (cases fallback_name)
    case False
    then show ?thesis
      unfolding remote_repo_name_visits visited_urls_def lookup_order_def by simp
  next
    case True
    obtain pre post where sp: "remotes = pre @ (remote_name, d) # post"
      and fl: "filter (\<lambda>r. fst r \<noteq> remote_name) remotes = pre @ post"
      using filter_other_remotes_present[OF assms(1) Some] by blast
    define ps where "ps = (case map_of d remote_purpose of Some url \<Rightarrow> [url] | None \<Rightarrow> []) @
          (if fallback_purpose then map snd d else [])"
    define xs where "xs = concat (map (\<lambda>r. remote_urls remote_purpose (snd r)) pre)"
    define zs where "zs = concat (map (\<lambda>r. remote_urls remote_purpose (snd r)) post)"
    have sub: "set (remote_urls remote_purpose d) \<subseteq> set ps"
    proof (cases fallback_purpose)
      case True
      then show ?thesis unfolding ps_def remote_urls_def by auto
    next
      case False
      then have "filter (\<lambda>e. fst e \<noteq> remote_purpose) d = []"
        using assms(2) True Some by (simp add: other_purposes_def)
      then show ?thesis unfolding ps_def remote_urls_def by simp
    qed
    have v: "visited_urls remotes remote_name remote_purpose fallback_name fallback_purpose =
        ps @ xs @ remote_urls remote_purpose d @ zs"
      unfolding visited_urls_def ps_def xs_def zs_def using Some True by (simp add: sp)
    have l: "lookup_order remotes remote_name remote_purpose fallback_name fallback_purpose =
        ps @ xs @ zs"
      unfolding lookup_order_def fl ps_def xs_def zs_def using Some True by simp
    show ?thesis
      unfolding remote_repo_name_visits v l by (rule first_some_skip[OF sub])
  qed
qed

theorem remote_repo_name_order_witness:
  "distinct (map fst
     [(''origin'', [(''fetch'', ''https://gitlab.com/o/r.git''), (''push'', ''https://gitlab.com/o/r.git'')]),
      (''a'', [(''fetch'', ''git@github.com:o1/r1.git''), (''push'', ''ssh://example.org/r1.git'')]),
      (''b'', [(''fetch'', ''https://github.com/o2/r2''), (''push'', ''https://github.com/o2/r2'')])]) \<and>
   remote_repo_name
     [(''origin'', [(''fetch'', ''https://gitlab.com/o/r.git''), (''push'', ''https://gitlab.com/o/r.git'')]),
      (''a'', [(''fetch'', ''git@github.com:o1/r1.git''), (''push'', ''ssh://example.org/r1.git'')]),
      (''b'', [(''fetch'', ''https://github.com/o2/r2''), (''push'', ''https://github.com/o2/r2'')])]
     ''origin'' ''push'' True True =
   first_some extract_repo_name_from_url (lookup_order
     [(''origin'', [(''fetch'', ''https://gitlab.com/o/r.git''), (''push'', ''https://gitlab.com/o/r.git'')]),
      (''a'', [(''fetch'', ''git@github.com:o1/r1.git''), (''push'', ''ssh://example.org/r1.git'')]),
      (''b'', [(''fetch'', ''https://github.com/o2/r2''), (''push'', ''https://github.com/o2/r2'')])]
     ''origin'' ''push'' True True) \<and>
   lookup_order
     [(''origin'', [(''fetch'', ''https://gitlab.com/o/r.git''), (''push'', ''https://gitlab.com/o/r.git'')]),
      (''a'', [(''fetch'', ''git@github.com:o1/r1.git''), (''push'', ''ssh://example.org/r1.git'')]),
      (''b'', [(''fetch'', ''https://github.com/o2/r2''), (''push'', ''https://github.com/o2/r2'')])]
     ''origin'' ''push'' True True =
   [''https://gitlab.com/o/r.git'', ''https://gitlab.com/o/r.git'', ''https://gitlab.com/o/r.git'',
    ''ssh://example.org/r1.git'', ''git@github.com:o1/r1.git'',
    ''https://github.com/o2/r2'', ''https://github.com/o2/r2''] \<and>
   first_some extract_repo_name_from_url (lookup_order
     [(''origin'', [(''fetch'', ''https://gitlab.com/o/r.git''), (''push'', ''https://gitlab.com/o/r.git'')]),
      (''a'', [(''fetch'', ''git@github.com:o1/r1.git''), (''push'', ''ssh://example.org/r1.git'')]),
      (''b'', [(''fetch'', ''https://github.com/o2/r2''), (''push'', ''https://github.com/o2/r2'')])]
     ''origin'' ''push'' True True) = Some (''o1'', ''r1'')"
proof -
  let ?t = "[(''origin'', [(''fetch'', ''https://gitlab.com/o/r.git''), (''push'', ''https://gitlab.com/o/r.git'')]),
      (''a'', [(''fetch'', ''git@github.com:o1/r1.git''), (''push'', ''ssh://example.org/r1.git'')]),
      (''b'', [(''fetch'', ''https://github.com/o2/r2''), (''push'', ''https://github.com/o2/r2'')])]"
  have d: "distinct (map fst ?t)" by simp
  have e: "remote_repo_name ?t ''origin'' ''push'' True True =
      first_some extract_repo_name_from_url (lookup_order ?t ''origin'' ''push'' True True)"
    using remote_repo_name_order [OF d, where fallback_purpose = True and fallback_name = True
        and remote_name = "''origin''" and remote_purpose = "''push''"]
    by simp
  have l: "lookup_order ?t ''origin'' ''push'' True True =
   [''https://gitlab.com/o/r.git'', ''https://gitlab.com/o/r.git'', ''https://gitlab.com/o/r.git'',
    ''ssh://example.org/r1.git'', ''git@github.com:o1/r1.git'',
    ''https://github.com/o2/r2'', ''https://github.com/o2/r2'']"
    by code_simp
  have r: "first_some extract_repo_name_from_url (lookup_order ?t ''origin'' ''push'' True True) =
      Some (''o1'', ''r1'')"
    by code_simp
  from d e l r show ?thesis by blast
qed

text \<open>
  C8, as stated, fails: with both fallbacks, the code tries the other purposes of remote \<open>a\<close>
  before the requested purpose of remote \<open>b\<close>, where the stated order tries the requested
  purpose of every other remote first.
\<close>

theorem remote_repo_name_claimed_order_counterexample:
  "remote_repo_name
     [(''origin'', [(''fetch'', ''https://gitlab.com/o/r.git''), (''push'', ''https://gitlab.com/o/r.git'')]),
      (''a'', [(''fetch'', ''git@github.com:o1/r1.git''), (''push'', ''ssh://example.org/r1.git'')]),
      (''b'', [(''fetch'', ''https://github.com/o2/r2''), (''push'', ''https://github.com/o2/r2'')])]
     ''origin'' ''push'' True True
   \<noteq> first_some extract_repo_name_from_url (claimed_order
     [(''origin'', [(''fetch'', ''https://gitlab.com/o/r.git''), (''push'', ''https://gitlab.com/o/r.git'')]),
      (''a'', [(''fetch'', ''git@github.com:o1/r1.git''), (''push'', ''ssh://example.org/r1.git'')]),
      (''b'', [(''fetch'', ''https://github.com/o2/r2''), (''push'', ''https://github.com/o2/r2'')])]
     ''origin'' ''push'' True True)"
  by code_simp

section \<open>Properties of the change-set decoder\<close>

lemma paths_of_extend:
  "paths_of (setdefault_extend k vs out) k' = (if k' = k then paths_of out k @ vs else paths_of out k')"
  by (simp add: paths_of_def setdefault_extend_def update_conv')

lemma from_neq_to: "b @ ''_from'' \<noteq> c @ ''_to''"
proof
  assume "b @ ''_from'' = c @ ''_to''"
  then have "last (b @ ''_from'') = last (c @ ''_to'')" by simp
  then show False by simp
qed

lemma key_def_values:
  assumes "map_of key_def key = Some category"
  shows "category \<in> {''added'', ''deleted'', ''modified'', ''unmerged'', ''unknown'', ''broken'',
     ''copied'', ''renamed''}"
  using assms by (auto simp: key_def_def split: if_splits)

lemma key_def_not_from: "map_of key_def key \<noteq> Some (b @ ''_from'')"
proof
  assume a: "map_of key_def key = Some (b @ ''_from'')"
  have "last (b @ ''_from'') = CHR ''m''" by simp
  with key_def_values[OF a] show False by auto
qed

lemma key_def_not_to: "map_of key_def key \<noteq> Some (b @ ''_to'')"
proof
  assume a: "map_of key_def key = Some (b @ ''_to'')"
  have "last (b @ ''_to'') = CHR ''o''" by simp
  with key_def_values[OF a] show False by auto
qed

lemma key_def_not_modified:
  "map_of key_def key \<noteq> Some (b @ ''_modified_from'')"
  "map_of key_def key \<noteq> Some (b @ ''_modified_to'')"
  using key_def_not_from[of key "b @ ''_modified''"] key_def_not_to[of key "b @ ''_modified''"]
  by simp_all

lemma pairs_for_Cons:
  "pairs_for b (l # ls) =
     (case paired_entry l of Some (c, p) \<Rightarrow> if c = b then [p] else [] | None \<Rightarrow> []) @ pairs_for b ls"
  by (auto simp: pairs_for_def split: option.splits)

lemma pairs_for_Nil: "pairs_for b [] = []"
  by (simp add: pairs_for_def map_filter_simps)

lemma changed_files_step_paths:
  assumes "changed_files_step out l = Inr out'"
  shows "paths_of out' (b @ ''_from'') = paths_of out (b @ ''_from'') @ map fst (pairs_for b [l])"
    and "paths_of out' (b @ ''_to'') = paths_of out (b @ ''_to'') @ map snd (pairs_for b [l])"
  using assms from_neq_to[of b] from_neq_to[of _ b]
  unfolding changed_files_step_def paired_entry_def pairs_for_Cons pairs_for_Nil
  by (auto simp: paths_of_extend key_def_not_from key_def_not_to key_def_not_modified Let_def
      split: list.splits option.splits if_splits)


lemma changed_files_loop_paths:
  assumes "changed_files_loop out ls = Inr out'"
  shows "paths_of out' (b @ ''_from'') = paths_of out (b @ ''_from'') @ map fst (pairs_for b ls) \<and>
         paths_of out' (b @ ''_to'') = paths_of out (b @ ''_to'') @ map snd (pairs_for b ls)"
  using assms
proof (induction ls arbitrary: out)
  case Nil
  then show ?case by (simp add: pairs_for_Nil)
next
  case (Cons l ls)
  then obtain mid where st: "changed_files_step out l = Inr mid"
    and rest: "changed_files_loop mid ls = Inr out'"
    by (auto split: sum.splits)
  have split: "pairs_for b (l # ls) = pairs_for b [l] @ pairs_for b ls"
    by (simp add: pairs_for_Cons pairs_for_Nil)
  show ?case
    using Cons.IH[OF rest] changed_files_step_paths[OF st, of b]
    by (simp add: split)
qed

lemma changed_files_pairs:
  assumes "changed_files output = Inr out"
  shows "paths_of out (b @ ''_from'') = map fst (pairs_for b (splitlines output))"
    and "paths_of out (b @ ''_to'') = map snd (pairs_for b (splitlines output))"
  using changed_files_loop_paths[of "[]" "splitlines output" out b] assms
  by (simp_all add: changed_files_def paths_of_def)

lemma changed_files_step_scored:
  assumes "letter = CHR ''C'' \<or> letter = CHR ''R''" "py_int score = Some similarity"
    "split_on TAB change = (letter # score) # p0 # p1 # extra"
  shows "changed_files_step out change =
      Inr (setdefault_extend (paired_category letter similarity @ ''_to'') [p1]
            (setdefault_extend (paired_category letter similarity @ ''_from'') [p0] out))"
proof -
  have "score \<noteq> []" using assms(2) by (auto simp: py_int_def int_strip_def Let_def)
  then have "map_of key_def (letter # score) = None"
    by (cases score) (auto simp: key_def_def)
  moreover have "map_of key_def [letter] = Some (if letter = CHR ''C'' then ''copied'' else ''renamed'')"
    using assms(1) by (auto simp: key_def_def)
  ultimately show ?thesis using assms(2,3)
    by (auto simp: changed_files_step_def paired_category_def Let_def)
qed

lemma changed_files_step_not_OperationError:
  "changed_files_step out change \<noteq> Inl GitTidyOperationError"
  by (auto simp: changed_files_step_def Let_def split: list.splits option.splits)

lemma changed_files_loop_not_OperationError:
  "changed_files_loop out changes \<noteq> Inl GitTidyOperationError"
  by (induction changes arbitrary: out)
     (auto simp: changed_files_step_not_OperationError split: sum.splits)

text \<open>
  C2. The decoder has no branch that raises \<open>GitTidyOperationError\<close>. The status \<open>T\<close> (a type
  change, which \<open>git diff --name-status\<close> does print) leaves with the \<open>ValueError\<close> of
  \<open>int('')\<close>; an unknown letter with a score leaves with the \<open>KeyError\<close> of the table lookup;
  and a known letter other than C and R with a score is only logged, and its paths are filed
  under a category of their own.
\<close>

theorem changed_files_unrecognized_status:
  "changed_files (''T'' @ [TAB] @ ''README.md'') = Inl ValueError \<and>
   changed_files (''Z50'' @ [TAB] @ ''x'' @ [TAB] @ ''y'') = Inl KeyError \<and>
   changed_files (''A50'' @ [TAB] @ ''x'' @ [TAB] @ ''y'') =
     Inr [(''added_modified_from'', [''x'']), (''added_modified_to'', [''y''])] \<and>
   (\<forall>output. changed_files output \<noteq> Inl GitTidyOperationError)"
proof -
  have a: "changed_files (''T'' @ [TAB] @ ''README.md'') = Inl ValueError"
    by code_simp
  have b: "changed_files (''Z50'' @ [TAB] @ ''x'' @ [TAB] @ ''y'') = Inl KeyError"
    by code_simp
  have c: "changed_files (''A50'' @ [TAB] @ ''x'' @ [TAB] @ ''y'') =
     Inr [(''added_modified_from'', [''x'']), (''added_modified_to'', [''y''])]"
    by code_simp
  have d: "\<forall>output. changed_files output \<noteq> Inl GitTidyOperationError"
    by (simp add: changed_files_def changed_files_loop_not_OperationError)
  from a b c d show ?thesis by blast
qed

text \<open>
  C3. A line whose status is the letter C or R followed by an integer score, with two paths
  after it, appends the first path to the \<open>_from\<close> list and the second to the \<open>_to\<close> list of
  \<open>copied\<close> or \<open>renamed\<close> when the score is 100, and of \<open>copied_modified\<close> or
  \<open>renamed_modified\<close> otherwise. In every mapping the decoder returns, the \<open>_from\<close> and \<open>_to\<close>
  lists of every category have the same length, and their elements at the same index are the two
  paths of one input line: paired up, the two lists are the path pairs of the lines of that
  category, in the order of the input.
\<close>

theorem changed_files_paired:
  "(\<forall>letter score similarity p0 p1 extra out.
      (letter = CHR ''C'' \<or> letter = CHR ''R'') \<and> py_int score = Some similarity \<and>
      split_on TAB change = (letter # score) # p0 # p1 # extra \<longrightarrow>
      changed_files_step out change =
        Inr (setdefault_extend (paired_category letter similarity @ ''_to'') [p1]
              (setdefault_extend (paired_category letter similarity @ ''_from'') [p0] out))) \<and>
   (\<forall>out. changed_files output = Inr out \<longrightarrow>
      (\<forall>category.
         length (paths_of out (category @ ''_from'')) = length (paths_of out (category @ ''_to'')) \<and>
         zip (paths_of out (category @ ''_from'')) (paths_of out (category @ ''_to'')) =
           pairs_for category (splitlines output)))"
proof (intro conjI allI impI)
  fix letter score similarity p0 p1 extra out
  assume "(letter = CHR ''C'' \<or> letter = CHR ''R'') \<and> py_int score = Some similarity \<and>
      split_on TAB change = (letter # score) # p0 # p1 # extra"
  then show "changed_files_step out change =
        Inr (setdefault_extend (paired_category letter similarity @ ''_to'') [p1]
              (setdefault_extend (paired_category letter similarity @ ''_from'') [p0] out))"
    using changed_files_step_scored by blast
next
  fix out category
  assume a: "changed_files output = Inr out"
  show "length (paths_of out (category @ ''_from'')) = length (paths_of out (category @ ''_to''))"
    by (simp add: changed_files_pairs[OF a])
  show "zip (paths_of out (category @ ''_from'')) (paths_of out (category @ ''_to'')) =
           pairs_for category (splitlines output)"
    by (simp add: changed_files_pairs[OF a] zip_map_fst_snd)
qed

theorem changed_files_paired_witness:
  "py_int ''100'' = Some 100 \<and>
   split_on TAB (''R100'' @ [TAB] @ ''old'' @ [TAB] @ ''new'') = (CHR ''R'' # ''100'') # ''old'' # ''new'' # [] \<and>
   changed_files_step [] (''R100'' @ [TAB] @ ''old'' @ [TAB] @ ''new'') =
     Inr [(''renamed_from'', [''old'']), (''renamed_to'', [''new''])] \<and>
   py_int ''075'' = Some 75 \<and>
   split_on TAB (''C075'' @ [TAB] @ ''a'' @ [TAB] @ ''b'') = (CHR ''C'' # ''075'') # ''a'' # ''b'' # [] \<and>
   changed_files_step [] (''C075'' @ [TAB] @ ''a'' @ [TAB] @ ''b'') =
     Inr [(''copied_modified_from'', [''a'']), (''copied_modified_to'', [''b''])] \<and>
   changed_files (''A'' @ [TAB] @ ''x'' @ [NL] @ ''R100'' @ [TAB] @ ''a'' @ [TAB] @ ''b'' @ [NL] @
       ''C075'' @ [TAB] @ ''c'' @ [TAB] @ ''d'' @ [NL] @ ''R100'' @ [TAB] @ ''e'' @ [TAB] @ ''f'' @ [NL]) =
     Inr [(''added'', [''x'']), (''renamed_from'', [''a'', ''e'']), (''renamed_to'', [''b'', ''f'']),
          (''copied_modified_from'', [''c'']), (''copied_modified_to'', [''d''])] \<and>
   (\<forall>category.
      length (paths_of [(''added'', [''x'']), (''renamed_from'', [''a'', ''e'']),
            (''renamed_to'', [''b'', ''f'']), (''copied_modified_from'', [''c'']),
            (''copied_modified_to'', [''d''])] (category @ ''_from'')) =
      length (paths_of [(''added'', [''x'']), (''renamed_from'', [''a'', ''e'']),
            (''renamed_to'', [''b'', ''f'']), (''copied_modified_from'', [''c'']),
            (''copied_modified_to'', [''d''])] (category @ ''_to'')) \<and>
      zip (paths_of [(''added'', [''x'']), (''renamed_from'', [''a'', ''e'']),
            (''renamed_to'', [''b'', ''f'']), (''copied_modified_from'', [''c'']),
            (''copied_modified_to'', [''d''])] (category @ ''_from''))
          (paths_of [(''added'', [''x'']), (''renamed_from'', [''a'', ''e'']),
            (''renamed_to'', [''b'', ''f'']), (''copied_modified_from'', [''c'']),
            (''copied_modified_to'', [''d''])] (category @ ''_to'')) =
        pairs_for category (splitlines (''A'' @ [TAB] @ ''x'' @ [NL] @ ''R100'' @ [TAB] @ ''a'' @ [TAB] @ ''b'' @ [NL] @
       ''C075'' @ [TAB] @ ''c'' @ [TAB] @ ''d'' @ [NL] @ ''R100'' @ [TAB] @ ''e'' @ [TAB] @ ''f'' @ [NL]))) \<and>
   pairs_for ''renamed'' (splitlines (''A'' @ [TAB] @ ''x'' @ [NL] @ ''R100'' @ [TAB] @ ''a'' @ [TAB] @ ''b'' @ [NL] @
       ''C075'' @ [TAB] @ ''c'' @ [TAB] @ ''d'' @ [NL] @ ''R100'' @ [TAB] @ ''e'' @ [TAB] @ ''f'' @ [NL])) =
     [(''a'', ''b''), (''e'', ''f'')]"
proof -
  let ?r = "''R100'' @ [TAB] @ ''old'' @ [TAB] @ ''new''"
  let ?c = "''C075'' @ [TAB] @ ''a'' @ [TAB] @ ''b''"
  let ?text = "''A'' @ [TAB] @ ''x'' @ [NL] @ ''R100'' @ [TAB] @ ''a'' @ [TAB] @ ''b'' @ [NL] @
       ''C075'' @ [TAB] @ ''c'' @ [TAB] @ ''d'' @ [NL] @ ''R100'' @ [TAB] @ ''e'' @ [TAB] @ ''f'' @ [NL]"
  let ?out = "[(''added'', [''x'']), (''renamed_from'', [''a'', ''e'']),
            (''renamed_to'', [''b'', ''f'']), (''copied_modified_from'', [''c'']),
            (''copied_modified_to'', [''d''])]"
  have i1: "py_int ''100'' = Some 100" by code_simp
  have s1: "split_on TAB ?r = (CHR ''R'' # ''100'') # ''old'' # ''new'' # []" by code_simp
  have i2: "py_int ''075'' = Some 75" by code_simp
  have s2: "split_on TAB ?c = (CHR ''C'' # ''075'') # ''a'' # ''b'' # []" by code_simp
  have e1: "setdefault_extend (paired_category (CHR ''R'') 100 @ ''_to'') [''new'']
              (setdefault_extend (paired_category (CHR ''R'') 100 @ ''_from'') [''old''] []) =
            [(''renamed_from'', [''old'']), (''renamed_to'', [''new''])]"
    by code_simp
  have e2: "setdefault_extend (paired_category (CHR ''C'') 75 @ ''_to'') [''b'']
              (setdefault_extend (paired_category (CHR ''C'') 75 @ ''_from'') [''a''] []) =
            [(''copied_modified_from'', [''a'']), (''copied_modified_to'', [''b''])]"
    by code_simp
  have r1: "changed_files_step [] ?r = Inr [(''renamed_from'', [''old'']), (''renamed_to'', [''new''])]"
    using changed_files_paired [of ?r "[]"] i1 s1 unfolding e1 [symmetric] by blast
  have r2: "changed_files_step [] ?c =
      Inr [(''copied_modified_from'', [''a'']), (''copied_modified_to'', [''b''])]"
    using changed_files_paired [of ?c "[]"] i2 s2 unfolding e2 [symmetric] by blast
  have t: "changed_files ?text = Inr ?out" by code_simp
  have al: "\<forall>category.
      length (paths_of ?out (category @ ''_from'')) = length (paths_of ?out (category @ ''_to'')) \<and>
      zip (paths_of ?out (category @ ''_from'')) (paths_of ?out (category @ ''_to'')) =
        pairs_for category (splitlines ?text)"
    using changed_files_paired [of "[]" ?text] t by blast
  have p: "pairs_for ''renamed'' (splitlines ?text) = [(''a'', ''b''), (''e'', ''f'')]"
    by code_simp
  from i1 s1 r1 i2 s2 r2 t al p show ?thesis by blast
qed

section \<open>Properties of the identity setting\<close>

lemma run_command_inner_calls:
  assumes "run_command_inner rn cmd a b w = (w', r)"
  shows "calls w' = calls w @ [(''git'' # cmd, code (snd (rn (''git'' # cmd) (env w))))]"
    and "env w' = fst (rn (''git'' # cmd) (env w))"
    and "r = Inr out \<Longrightarrow> out = snd (rn (''git'' # cmd) (env w))"
  using assms
  by (auto simp: run_command_inner_def pyshellman_run_def Let_def split: prod.splits if_splits)

lemma set_user_field_calls:
  assumes "set_user_field rn (config_cmd scope) user_type key val w = (w', r)"
  shows "\<exists>d. calls w' = calls w @ d \<and> prefix (map fst d) (field_commands scope user_type key val) \<and>
             (r = Inr () \<longrightarrow> map fst d = field_commands scope user_type key val)"
proof (cases val)
  case None
  then obtain w1 r1 where
    run: "run_command_inner rn (config_cmd scope @ [''--unset'', user_type @ ''.'' @ key]) True False w = (w1, r1)"
    and w': "w' = w1"
    using assms by (auto simp: set_user_field_def split: prod.splits sum.splits)
  show ?thesis
    using run_command_inner_calls(1)[OF run] None w'
    by (simp add: field_commands_def)
next
  case (Some v)
  show ?thesis
  proof (cases "v = []")
    case True
    then show ?thesis using assms Some by (simp add: set_user_field_def field_commands_def)
  next
    case False
    then obtain w1 r1 where
      run: "run_command_inner rn (config_cmd scope @ [user_type @ ''.'' @ key, v]) True False w = (w1, r1)"
      and w': "w' = w1"
      using assms Some by (auto simp: set_user_field_def split: prod.splits sum.splits)
    show ?thesis
      using run_command_inner_calls(1)[OF run] Some False w'
      by (simp add: field_commands_def)
  qed
qed

lemma set_user_calls:
  assumes "set_user rn username email user_type scope w = (w', r)"
  shows "\<exists>d. calls w' = calls w @ d \<and>
           prefix (map fst d) (field_commands scope user_type ''name'' username @
                               field_commands scope user_type ''email'' email) \<and>
           (r = Inr () \<longrightarrow> map fst d = field_commands scope user_type ''name'' username @
                               field_commands scope user_type ''email'' email)"
proof -
  obtain w1 r1 where f1: "set_user_field rn (config_cmd scope) user_type ''name'' username w = (w1, r1)"
    by (cases "set_user_field rn (config_cmd scope) user_type ''name'' username w") auto
  from set_user_field_calls[OF f1] obtain d1 where
    d1: "calls w1 = calls w @ d1" "prefix (map fst d1) (field_commands scope user_type ''name'' username)"
      "r1 = Inr () \<longrightarrow> map fst d1 = field_commands scope user_type ''name'' username"
    by blast
  show ?thesis
  proof (cases r1)
    case (Inl e)
    then have "w' = w1" "r = Inl e" using assms f1 by (auto simp: set_user_def)
    then show ?thesis using d1 by (auto simp: prefix_def)
  next
    case (Inr u)
    then have f2: "set_user_field rn (config_cmd scope) user_type ''email'' email w1 = (w', r)"
      using assms f1 by (auto simp: set_user_def)
    from set_user_field_calls[OF f2] obtain d2 where
      d2: "calls w' = calls w1 @ d2" "prefix (map fst d2) (field_commands scope user_type ''email'' email)"
        "r = Inr () \<longrightarrow> map fst d2 = field_commands scope user_type ''email'' email"
      by blast
    have n: "map fst d1 = field_commands scope user_type ''name'' username" using d1(3) Inr by simp
    show ?thesis
      using d1(1) d2 n by (intro exI[of _ "d1 @ d2"]) auto
  qed
qed

lemma set_user_empty:
  "set_user rn (Some []) (Some []) user_type scope w = (w, Inr ())"
  by (simp add: set_user_def set_user_field_def)

lemma run_all_append:
  "run_all rn (xs @ ys) w =
     (case run_all rn xs w of (w', Inl e) \<Rightarrow> (w', Inl e) | (w', Inr u) \<Rightarrow> run_all rn ys w')"
  by (induction xs arbitrary: w) (auto split: prod.splits)

lemma set_user_field_run_all:
  "set_user_field rn (config_cmd scope) user_type key val w =
     run_all rn (field_commands scope user_type key val) w"
  by (auto simp: set_user_field_def field_commands_def run_command_inner_def pyshellman_run_def
      Let_def split: option.splits prod.splits)

text \<open>
  C10, as amended. \<open>set_user\<close> handles the name and then the email: for \<open>None\<close> it issues
  the command that unsets the key, for a non-empty string the command that writes the value,
  and for the empty string no command, so that the field is left untouched. The commands run
  in this order, and a command that exits with a nonzero code raises: the email is handled only
  when the command for the name, if there is one, has not raised.
\<close>

theorem set_user_fields:
  "set_user rn username email user_type scope w =
     run_all rn (field_commands scope user_type ''name'' username @
                 field_commands scope user_type ''email'' email) w"
  unfolding set_user_def set_user_field_run_all run_all_append ..

theorem set_user_fields_witness:
  "set_user sim_git (Some ''Bea'') (Some []) ''user'' (Some ''global'')
     \<lparr>calls = [], env = [(''user.name'', ''Ann''), (''user.email'', ''ann@example.org'')]\<rparr> =
     (\<lparr>calls = [([''git'', ''config'', ''--global'', ''user.name'', ''Bea''], 0)],
       env = [(''user.name'', ''Bea''), (''user.email'', ''ann@example.org'')]\<rparr>, Inr ()) \<and>
   set_user sim_git (Some []) None ''user'' (Some ''global'')
     \<lparr>calls = [], env = [(''user.name'', ''Ann''), (''user.email'', ''ann@example.org'')]\<rparr> =
     (\<lparr>calls = [([''git'', ''config'', ''--global'', ''--unset'', ''user.email''], 0)],
       env = [(''user.name'', ''Ann'')]\<rparr>, Inr ()) \<and>
   set_user sim_git (Some []) (Some []) ''user'' (Some ''global'')
     \<lparr>calls = [], env = [(''user.name'', ''Ann''), (''user.email'', ''ann@example.org'')]\<rparr> =
     (\<lparr>calls = [], env = [(''user.name'', ''Ann''), (''user.email'', ''ann@example.org'')]\<rparr>, Inr ())"
proof -
  let ?w = "\<lparr>calls = [], env = [(''user.name'', ''Ann''), (''user.email'', ''ann@example.org'')]\<rparr>"
  have a: "run_all sim_git (field_commands (Some ''global'') ''user'' ''name'' (Some ''Bea'') @
                 field_commands (Some ''global'') ''user'' ''email'' (Some [])) ?w =
     (\<lparr>calls = [([''git'', ''config'', ''--global'', ''user.name'', ''Bea''], 0)],
       env = [(''user.name'', ''Bea''), (''user.email'', ''ann@example.org'')]\<rparr>, Inr ())"
    by code_simp
  have b: "run_all sim_git (field_commands (Some ''global'') ''user'' ''name'' (Some []) @
                 field_commands (Some ''global'') ''user'' ''email'' None) ?w =
     (\<lparr>calls = [([''git'', ''config'', ''--global'', ''--unset'', ''user.email''], 0)],
       env = [(''user.name'', ''Ann'')]\<rparr>, Inr ())"
    by code_simp
  have c: "run_all sim_git (field_commands (Some ''global'') ''user'' ''name'' (Some []) @
                 field_commands (Some ''global'') ''user'' ''email'' (Some [])) ?w = (?w, Inr ())"
    by code_simp
  show ?thesis
    unfolding set_user_fields [of sim_git] a b c by simp
qed

text \<open>
  C10, as stated, fails: the two fields are not handled independently. With \<open>None\<close> for a
  name that is not configured, the command that unsets it exits with 5 and raises, and the
  email, a non-empty string, is not written.
\<close>

theorem set_user_fields_counterexample:
  "set_user sim_git None (Some ''ann@example.org'') ''user'' (Some ''global'')
     \<lparr>calls = [], env = []\<rparr> =
     (\<lparr>calls = [([''git'', ''config'', ''--global'', ''--unset'', ''user.name''], 5)], env = []\<rparr>,
      Inl PyShellManError) \<and>
   field_commands (Some ''global'') ''user'' ''email'' (Some ''ann@example.org'') =
     [[''git'', ''config'', ''--global'', ''user.email'', ''ann@example.org'']]"
  by code_simp

section \<open>Properties of commit\<close>

lemma field_commands_config:
  assumes "c \<in> set (field_commands scope user_type key val)"
  shows "take 2 c = [''git'', ''config'']"
  using assms
  by (auto simp: field_commands_def config_cmd_def split: option.splits if_splits)

lemma config_not_commit:
  assumes "take 2 (fst c) = [''git'', ''config'']"
  shows "\<not> is_commit_call c"
  using assms by (simp add: is_commit_call_def)

lemma set_user_no_commit:
  assumes "set_user rn username email user_type scope w = (w', r)"
  shows "\<exists>d. calls w' = calls w @ d \<and> \<not> list_ex is_commit_call d"
proof -
  from set_user_calls[OF assms] obtain d where
    d: "calls w' = calls w @ d"
    "prefix (map fst d) (field_commands scope user_type ''name'' username @
                               field_commands scope user_type ''email'' email)"
    by blast
  have "\<not> is_commit_call c" if "c \<in> set d" for c
  proof -
    have "fst c \<in> set (map fst d)" using that by simp
    then have "fst c \<in> set (field_commands scope user_type ''name'' username @
                               field_commands scope user_type ''email'' email)"
      using set_mono_prefix[OF d(2)] by blast
    then have "take 2 (fst c) = [''git'', ''config'']"
      using field_commands_config by auto
    then show ?thesis by (rule config_not_commit)
  qed
  then have "\<not> list_ex is_commit_call d" by (auto simp: list_ex_iff)
  with d(1) show ?thesis by blast
qed

lemma enter_credentials_no_commit:
  assumes "enter_credentials rn g w = (w', r)"
  shows "\<exists>d. calls w' = calls w @ d \<and> \<not> list_ex is_commit_call d"
proof -
  obtain w1 r1 where a: "(if \<not> author_persistent g
            then set_user rn (Some (author_username g)) (Some (author_email g)) ''author''
                   (author_scope g) w
            else (w, Inr ())) = (w1, r1)"
    by (metis surj_pair)
  have d1: "\<exists>d. calls w1 = calls w @ d \<and> \<not> list_ex is_commit_call d"
    using a set_user_no_commit by (auto split: if_splits)
  show ?thesis
  proof (cases r1)
    case (Inl e)
    then have "w' = w1" using assms a by (simp add: enter_credentials_def)
    then show ?thesis using d1 by simp
  next
    case (Inr u)
    then have b: "(if \<not> committer_persistent g
          then set_user rn (Some (committer_username g)) (Some (committer_email g)) ''committer''
                 (committer_scope g) w1
          else (w1, Inr ())) = (w', r)"
      using assms a by (simp add: enter_credentials_def)
    have d2: "\<exists>d. calls w' = calls w1 @ d \<and> \<not> list_ex is_commit_call d"
      using b set_user_no_commit by (auto split: if_splits)
    from d1 d2 show ?thesis by (auto simp: list_ex_iff)
  qed
qed

lemma exit_credentials_no_commit:
  assumes "exit_credentials rn g w = (w', r)"
  shows "\<exists>d. calls w' = calls w @ d \<and> \<not> list_ex is_commit_call d"
proof -
  obtain w1 r1 where a: "(if \<not> author_persistent g
            then set_user rn (original_author_username g) (original_author_email g) ''author''
                   (author_scope g) w
            else (w, Inr ())) = (w1, r1)"
    by (metis surj_pair)
  have d1: "\<exists>d. calls w1 = calls w @ d \<and> \<not> list_ex is_commit_call d"
    using a set_user_no_commit by (auto split: if_splits)
  show ?thesis
  proof (cases r1)
    case (Inl e)
    then have "w' = w1" using assms a by (simp add: exit_credentials_def)
    then show ?thesis using d1 by simp
  next
    case (Inr u)
    then have b: "(if \<not> committer_persistent g
          then set_user rn (original_committer_username g) (original_committer_email g)
                 ''committer'' (committer_scope g) w1
          else (w1, Inr ())) = (w', r)"
      using assms a by (simp add: exit_credentials_def)
    have d2: "\<exists>d. calls w' = calls w1 @ d \<and> \<not> list_ex is_commit_call d"
      using b set_user_no_commit by (auto split: if_splits)
    from d1 d2 show ?thesis by (auto simp: list_ex_iff)
  qed
qed

lemma run_command_calls:
  assumes "run_command rn g cmd nc a b w = (w', r)"
  shows "\<exists>d. calls w' = calls w @ d \<and> (take 1 cmd \<noteq> [''commit''] \<longrightarrow> \<not> list_ex is_commit_call d)"
proof (cases nc)
  case False
  then have "run_command_inner rn cmd a b w = (w', r)" using assms by (simp add: run_command_def)
  from run_command_inner_calls(1)[OF this] show ?thesis
    by (cases cmd) (auto simp: is_commit_call_def)
next
  case True
  obtain w1 r1 where e: "enter_credentials rn g w = (w1, r1)" by (metis surj_pair)
  from enter_credentials_no_commit[OF e] obtain d1 where
    d1: "calls w1 = calls w @ d1" "\<not> list_ex is_commit_call d1" by blast
  show ?thesis
  proof (cases r1)
    case (Inl err)
    then have "w' = w1" using assms e True by (simp add: run_command_def)
    then show ?thesis using d1 by auto
  next
    case (Inr u)
    obtain w2 r2 where c: "run_command_inner rn cmd a b w1 = (w2, r2)" by (metis surj_pair)
    have d2: "calls w2 = calls w1 @ [(''git'' # cmd, code (snd (rn (''git'' # cmd) (env w1))))]"
      using run_command_inner_calls(1)[OF c] .
    have nc2: "take 1 cmd \<noteq> [''commit''] \<longrightarrow>
        \<not> is_commit_call (''git'' # cmd, code (snd (rn (''git'' # cmd) (env w1))))"
      by (cases cmd) (auto simp: is_commit_call_def)
    show ?thesis
    proof (cases r2)
      case (Inl err)
      then have "w' = w2" using assms e c True Inr by (simp add: run_command_def)
      then show ?thesis using d1 d2 nc2 by (auto simp: list_ex_iff)
    next
      case (Inr out)
      obtain w3 r3 where x: "exit_credentials rn g w2 = (w3, r3)" by (metis surj_pair)
      from exit_credentials_no_commit[OF x] obtain d3 where
        d3: "calls w3 = calls w2 @ d3" "\<not> list_ex is_commit_call d3" by blast
      have "w' = w3" using assms e c x True \<open>r1 = Inr u\<close> Inr
        by (auto simp: run_command_def split: sum.splits)
      then show ?thesis using d1 d2 d3 nc2 by (auto simp: list_ex_iff)
    qed
  qed
qed

lemma has_changes_staged:
  assumes "has_changes rn Staged w = (w', r)"
  shows "calls w' = calls w @ [(staged_probe, code (snd (rn staged_probe (env w))))]"
    and "r = Inr (code (snd (rn staged_probe (env w))) \<noteq> 0)"
  using assms
  by (auto simp: has_changes_def diff_changed_def run_command_inner_def pyshellman_run_def
      staged_probe_def Let_def split: prod.splits)

lemma commit_hash_normal_calls:
  assumes "commit_hash_normal rn w = (w', r)"
  shows "\<exists>d. calls w' = calls w @ d \<and> \<not> list_ex is_commit_call d"
proof -
  obtain w1 r1 where c: "run_command_inner rn [''rev-parse'', ''HEAD~0''] True False w = (w1, r1)"
    by (metis surj_pair)
  have "w' = w1" using assms c by (auto simp: commit_hash_normal_def split: sum.splits)
  then show ?thesis using run_command_inner_calls(1)[OF c] by (simp add: is_commit_call_def)
qed

lemma commit_tail_calls:
  assumes "(case run_command rn g c True True False w2 of
              (w3, Inl e) \<Rightarrow> (w3, Inl e)
            | (w3, Inr out) \<Rightarrow>
                (case commit_hash_normal rn w3 of
                   (w4, Inl e) \<Rightarrow> (w4, Inl e)
                 | (w4, Inr h) \<Rightarrow> (w4, Inr (Some h)))) = (w', r)"
  shows "\<exists>d. calls w' = calls w2 @ d"
proof -
  obtain w3 r3 where c: "run_command rn g c True True False w2 = (w3, r3)" by (metis surj_pair)
  from run_command_calls[OF c] obtain d3 where d3: "calls w3 = calls w2 @ d3" by blast
  show ?thesis
  proof (cases r3)
    case (Inl e)
    then have "w' = w3" using assms c by simp
    then show ?thesis using d3 by simp
  next
    case (Inr out)
    obtain w4 r4 where h: "commit_hash_normal rn w3 = (w4, r4)" by (metis surj_pair)
    from commit_hash_normal_calls[OF h] obtain d4 where d4: "calls w4 = calls w3 @ d4" by blast
    have "w' = w4" using assms c h Inr by (auto split: sum.splits)
    then show ?thesis using d3 d4 by simp
  qed
qed

lemma commit_stage_calls:
  assumes "(if stg \<noteq> StageNone
               then (case run_command rn g [''add'', if stg = StageAll then ''-A'' else ''-u'']
                            True True False w of
                       (w', Inl e) \<Rightarrow> (w', Inl e)
                     | (w', Inr r) \<Rightarrow> (w', Inr ()))
               else (w, Inr ())) = (w1, r1)"
  shows "\<exists>d. calls w1 = calls w @ d \<and> \<not> list_ex is_commit_call d"
proof (cases "stg = StageNone")
  case True
  then show ?thesis using assms by simp
next
  case False
  obtain w0 r0 where c: "run_command rn g [''add'', if stg = StageAll then ''-A'' else ''-u'']
                            True True False w = (w0, r0)" by (metis surj_pair)
  have "w1 = w0" using assms c False by (auto split: sum.splits)
  then show ?thesis using run_command_calls[OF c] by simp
qed

lemma staged_probe_not_commit: "\<not> is_commit_call (staged_probe, k)"
  by (simp add: is_commit_call_def staged_probe_def)

lemma commit_calls:
  assumes "commit rn g message stg amend allow_empty w = (w', r)"
  shows "\<exists>d. calls w' = calls w @ d \<and>
           (list_ex is_commit_call d \<longrightarrow> allow_empty \<or> list_ex is_staged_report d)"
proof -
  define stage_step where "stage_step =
     (if stg \<noteq> StageNone
      then (case run_command rn g [''add'', if stg = StageAll then ''-A'' else ''-u'']
                   True True False w of
              (w', Inl e) \<Rightarrow> (w', Inl e)
            | (w', Inr r) \<Rightarrow> (w', Inr ()))
      else (w, Inr ()))"
  define tail where "tail = (\<lambda>w2.
     case run_command rn g (commit_cmd message amend allow_empty) True True False w2 of
       (w3, Inl e) \<Rightarrow> (w3, Inl e)
     | (w3, Inr out) \<Rightarrow>
         (case commit_hash_normal rn w3 of
            (w4, Inl e) \<Rightarrow> (w4, Inl e)
          | (w4, Inr h) \<Rightarrow> (w4, Inr (Some h))))"
  have unfold: "commit rn g message stg amend allow_empty w =
     (if \<not> amend \<and> message = [] then (w, Inl AttributeError)
      else
        (case stage_step of
           (w1, Inl e) \<Rightarrow> (w1, Inl e)
         | (w1, Inr u) \<Rightarrow>
             (case (if allow_empty then (w1, Inr True) else has_changes rn Staged w1) of
                (w2, Inl e) \<Rightarrow> (w2, Inl e)
              | (w2, Inr go) \<Rightarrow> if go then tail w2 else (w2, Inr None))))"
    unfolding commit_def stage_step_def tail_def by (rule refl)
  have tail_calls: "\<exists>d. calls w'' = calls w2 @ d" if "tail w2 = (w'', r'')" for w2 w'' r''
    using commit_tail_calls[OF that[unfolded tail_def]] .
  obtain w1 r1 where s: "stage_step = (w1, r1)" by (metis surj_pair)
  from commit_stage_calls[OF s[unfolded stage_step_def]] obtain d1 where
    d1: "calls w1 = calls w @ d1" "\<not> list_ex is_commit_call d1" by blast
  show ?thesis
  proof (cases "\<not> amend \<and> message = []")
    case True
    then have "w' = w" using assms unfolding unfold by simp
    then show ?thesis by simp
  next
    case False
    show ?thesis
    proof (cases r1)
      case (Inl e)
      then have "w' = w1" using assms False unfolding unfold s by simp
      then show ?thesis using d1 by auto
    next
      case (Inr u)
      show ?thesis
      proof (cases allow_empty)
        case True
        then have "tail w1 = (w', r)" using assms False Inr unfolding unfold s by simp
        from tail_calls[OF this] obtain d where "calls w' = calls w1 @ d" by blast
        then show ?thesis using d1 True by auto
      next
        case ae: False
        obtain w2 r2 where h: "has_changes rn Staged w1 = (w2, r2)" by (metis surj_pair)
        define k where "k = code (snd (rn staged_probe (env w1)))"
        have d2: "calls w2 = calls w1 @ [(staged_probe, k)]" and r2: "r2 = Inr (k \<noteq> 0)"
          using has_changes_staged[OF h] unfolding k_def by auto
        show ?thesis
        proof (cases "k = 0")
          case True
          then have "w' = w2" using assms False Inr ae r2 h unfolding unfold s by simp
          moreover have "\<not> list_ex is_commit_call (d1 @ [(staged_probe, k)])"
            using d1(2) staged_probe_not_commit by (simp add: list_ex_iff)
          moreover have "calls w2 = calls w @ (d1 @ [(staged_probe, k)])" using d1(1) d2 by simp
          ultimately show ?thesis by blast
        next
          case nz: False
          then have "tail w2 = (w', r)" using assms False Inr ae r2 h unfolding unfold s by simp
          from tail_calls[OF this] obtain d where d: "calls w' = calls w2 @ d" by blast
          have "is_staged_report (staged_probe, k)" using nz by (simp add: is_staged_report_def)
          then have "list_ex is_staged_report (d1 @ [(staged_probe, k)] @ d)"
            by (simp add: list_ex_iff)
          moreover have "calls w' = calls w @ (d1 @ [(staged_probe, k)] @ d)"
            using d1 d2 d by simp
          ultimately show ?thesis by blast
        qed
      qed
    qed
  qed
qed

lemma has_changes_staged_eq:
  "has_changes rn Staged w =
     (\<lparr>calls = calls w @ [(staged_probe, code (snd (rn staged_probe (env w))))],
       env = fst (rn staged_probe (env w))\<rparr>,
      Inr (code (snd (rn staged_probe (env w))) \<noteq> 0))"
  by (simp add: has_changes_def diff_changed_def run_command_inner_def
      pyshellman_run_def staged_probe_def Let_def split: prod.splits)

lemma commit_nothing_staged:
  assumes "message \<noteq> [] \<or> amend" "code (snd (rn staged_probe (env w))) = 0"
  shows "commit rn g message StageNone amend False w =
           (\<lparr>calls = calls w @ [(staged_probe, 0)], env = fst (rn staged_probe (env w))\<rparr>, Inr None)"
proof -
  have "\<not> (\<not> amend \<and> message = [])" using assms(1) by blast
  then show ?thesis
    unfolding commit_def using assms(2) by (simp add: has_changes_staged_eq)
qed

text \<open>
  C7. A call of \<open>commit\<close> with \<open>stage="none"\<close>, \<open>allow_empty=False\<close> and a message (or
  \<open>amend\<close>), when the probe \<open>git diff --quiet --cached\<close> reports no staged changes, runs
  that probe and nothing else, and returns \<open>None\<close>. For every call of \<open>commit\<close>: if a
  \<open>git commit\<close> is among the commands it has run, then \<open>allow_empty\<close> was set or the probe
  for staged changes has reported changes.
\<close>

theorem commit_only_when_staged:
  "(stg = StageNone \<and> \<not> allow_empty \<and> (message \<noteq> [] \<or> amend) \<and>
      code (snd (rn staged_probe (env w))) = 0 \<longrightarrow>
      commit rn g message stg amend allow_empty w =
        (\<lparr>calls = calls w @ [(staged_probe, 0)], env = fst (rn staged_probe (env w))\<rparr>, Inr None)) \<and>
   (\<exists>d. calls (fst (commit rn g message stg amend allow_empty w)) = calls w @ d \<and>
      (list_ex is_commit_call d \<longrightarrow> allow_empty \<or> list_ex is_staged_report d))"
proof (intro conjI impI)
  assume "stg = StageNone \<and> \<not> allow_empty \<and> (message \<noteq> [] \<or> amend) \<and>
      code (snd (rn staged_probe (env w))) = 0"
  then show "commit rn g message stg amend allow_empty w =
        (\<lparr>calls = calls w @ [(staged_probe, 0)], env = fst (rn staged_probe (env w))\<rparr>, Inr None)"
    using commit_nothing_staged[of message amend rn w g] by auto
next
  obtain w' r where c: "commit rn g message stg amend allow_empty w = (w', r)"
    by (metis surj_pair)
  from commit_calls[OF c] show "\<exists>d. calls (fst (commit rn g message stg amend allow_empty w)) = calls w @ d \<and>
      (list_ex is_commit_call d \<longrightarrow> allow_empty \<or> list_ex is_staged_report d)"
    unfolding c by simp
qed

theorem commit_only_when_staged_witness:
  "''msg'' \<noteq> [] \<and>
   code (snd (sim_git staged_probe (env sim_world))) = 0 \<and>
   commit sim_git no_override ''msg'' StageNone False False sim_world =
     (\<lparr>calls = calls sim_world @ [(staged_probe, 0)],
       env = fst (sim_git staged_probe (env sim_world))\<rparr>, Inr None) \<and>
   calls (fst (commit sim_git no_override ''msg'' StageAll False False sim_world)) =
     [([''git'', ''add'', ''-A''], 0), ([''git'', ''diff'', ''--quiet'', ''--cached''], 1),
      ([''git'', ''commit'', ''-m'', ''msg''], 0), ([''git'', ''rev-parse'', ''HEAD~0''], 0)] \<and>
   list_ex is_commit_call (calls (fst (commit sim_git no_override ''msg'' StageAll False False sim_world))) \<and>
   list_ex is_staged_report (calls (fst (commit sim_git no_override ''msg'' StageAll False False sim_world)))"
proof -
  have m: "''msg'' \<noteq> []" by simp
  have p: "code (snd (sim_git staged_probe (env sim_world))) = 0" by code_simp
  have none: "commit sim_git no_override ''msg'' StageNone False False sim_world =
     (\<lparr>calls = calls sim_world @ [(staged_probe, 0)],
       env = fst (sim_git staged_probe (env sim_world))\<rparr>, Inr None)"
    using commit_only_when_staged [of StageNone False "''msg''" False sim_git sim_world no_override] m p
    by blast
  have c: "calls (fst (commit sim_git no_override ''msg'' StageAll False False sim_world)) =
     [([''git'', ''add'', ''-A''], 0), ([''git'', ''diff'', ''--quiet'', ''--cached''], 1),
      ([''git'', ''commit'', ''-m'', ''msg''], 0), ([''git'', ''rev-parse'', ''HEAD~0''], 0)]"
    by code_simp
  have ic: "list_ex is_commit_call
      (calls (fst (commit sim_git no_override ''msg'' StageAll False False sim_world)))"
    by code_simp
  have e: "calls sim_world = []" by (simp add: sim_world_def)
  obtain d where d: "calls (fst (commit sim_git no_override ''msg'' StageAll False False sim_world)) =
        calls sim_world @ d"
      "list_ex is_commit_call d \<longrightarrow> False \<or> list_ex is_staged_report d"
    using commit_only_when_staged [of StageAll False "''msg''" False sim_git sim_world no_override]
    by blast
  have "d = calls (fst (commit sim_git no_override ''msg'' StageAll False False sim_world))"
    using d(1) e by simp
  then have sr: "list_ex is_staged_report
      (calls (fst (commit sim_git no_override ''msg'' StageAll False False sim_world)))"
    using d(2) ic by simp
  from m p none c ic sr show ?thesis by blast
qed

section \<open>The temporary identity when the command fails\<close>

text \<open>
  C1. A repository object is built with an author override that is not persistent; the
  construction reads the configured author \<open>Orig\<close> as the original. A command that needs
  credentials and succeeds leaves the author as it was. A command that needs credentials and
  fails (here \<open>git push\<close>, with a nonzero exit code) raises, and the author stays the
  override: the restoring commands are not run.
\<close>

theorem temporary_credentials_after_failure:
  "(case init sim_git None None (Some (''Temp'', ''temp@example.org'')) (Some ''local'') False
           None None False sim_world of
      (w1, Inl e) \<Rightarrow> False
    | (w1, Inr g) \<Rightarrow>
        \<not> author_persistent g \<and>
        original_author_username g = Some ''Orig'' \<and>
        original_author_email g = Some ''orig@example.org'' \<and>
        map_of (env w1) ''author.name'' = Some ''Orig'' \<and>
        (case run_command sim_git g [''status''] True True False w1 of
           (w2, r) \<Rightarrow>
             r = Inr \<lparr>code = 0, stdout = [], stderr = []\<rparr> \<and>
             map_of (env w2) ''author.name'' = Some ''Orig'' \<and>
             map_of (env w2) ''author.email'' = Some ''orig@example.org'') \<and>
        (case run_command sim_git g [''push''] True True False w1 of
           (w2, r) \<Rightarrow>
             r = Inl PyShellManError \<and>
             map_of (env w2) ''author.name'' = Some ''Temp'' \<and>
             map_of (env w2) ''author.email'' = Some ''temp@example.org'' \<and>
             map fst (drop (length (calls w1)) (calls w2)) =
               [[''git'', ''config'', ''--local'', ''author.name'', ''Temp''],
                [''git'', ''config'', ''--local'', ''author.email'', ''temp@example.org''],
                [''git'', ''push'']]))"
  by code_simp

section \<open>Properties of the commit-log decoder\<close>



















end
